theory Spec2Isabelle
  imports Main
begin

section \<open>Python 2 values, exceptions and the \<open>struct\<close> module\<close>

text \<open>
  The program is Python 2: a \<open>str\<close> is a byte string, modelled as a \<open>char list\<close>
  (an Isabelle \<open>char\<close> is one byte), and integers are unbounded, modelled as \<open>nat\<close>
  (every format the program unpacks is unsigned).  The file is idealised as an unbounded
  byte sequence: limits of memory, of the disk and of the platform's file offsets are not
  modelled.

  Exceptions are values.  The spec's taxonomy names them as follows:
  \<^item> FormatError: \<open>IOError('Not a TIFF file')\<close>, \<open>IOError('Bad BigTIFF header')\<close>
    and \<open>struct.error\<close> (a truncated read);
  \<^item> UnsupportedValueType: \<open>ValueError('Unsupported type')\<close>;
  \<^item> MalformedString: \<open>ValueError('String not null-terminated')\<close>;
  \<^item> MissingStripInfo: \<open>IOError('Label is not stripped')\<close>;
  \<^item> LabelNotFound: \<open>IOError("Couldn't find Aperio label directory")\<close>.
  \<open>IndexError\<close>, \<open>AttributeError\<close> and \<open>TypeError\<close> are raised by the interpreter
  where the program indexes an empty tuple, calls a \<open>str\<close> method on a tuple, or uses a
  \<open>str\<close> where a number is needed.
\<close>

datatype error =
    IOError string
  | ValueError string
  | struct_error
  | IndexError
  | AttributeError
  | TypeError

definition NotATiffFile :: error where
  "NotATiffFile = IOError ''Not a TIFF file''"

definition BadBigTiffHeader :: error where
  "BadBigTiffHeader = IOError ''Bad BigTIFF header''"

definition UnsupportedValueType :: error where
  "UnsupportedValueType = ValueError ''Unsupported type''"

definition MalformedString :: error where
  "MalformedString = ValueError ''String not null-terminated''"

definition MissingStripInfo :: error where
  "MissingStripInfo = IOError ''Label is not stripped''"


definition FormatError :: "error \<Rightarrow> bool" where
  "FormatError e \<longleftrightarrow> e = NotATiffFile \<or> e = BadBigTiffHeader \<or> e = struct_error"

text \<open>One value unpacked by \<open>struct\<close>: a one-character \<open>str\<close> (format \<open>c\<close>) or a number.\<close>

datatype item = Chr char | Num nat

text \<open>What \<open>TiffEntry.value\<close> returns: a joined \<open>str\<close> or the tuple of items.\<close>

datatype tiff_value = Text string | Items "item list"

text \<open>Iterating a value, as \<open>zip\<close> does: a \<open>str\<close> yields its characters.\<close>

fun iter :: "tiff_value \<Rightarrow> item list" where
  "iter (Text s) = map Chr s"
| "iter (Items xs) = xs"

datatype endian = LittleEndian | BigEndian

text \<open>
  The format characters of the program: \<open>c H I Q\<close> are \<open>struct\<close>'s own, \<open>Y\<close> and
  \<open>Z\<close> are the program's mode-relative ones.  A format string is the list of its
  characters, a repeat count \<open>'%d%s' % (count, item_fmt)\<close> written out with \<open>replicate\<close>.
\<close>

datatype fmt_char = Fmt_c | Fmt_H | Fmt_I | Fmt_Q | Fmt_Y | Fmt_Z

datatype struct_char = S_c | S_H | S_I | S_Q

fun std_size :: "struct_char \<Rightarrow> nat" where
  "std_size S_c = 1"
| "std_size S_H = 2"
| "std_size S_I = 4"
| "std_size S_Q = 8"

definition calcsize :: "endian \<times> struct_char list \<Rightarrow> nat" where
  "calcsize fmt = sum_list (map std_size (snd fmt))"

definition le_nat :: "string \<Rightarrow> nat" where
  "le_nat s = foldr (\<lambda>ch a. of_char ch + 256 * a) s 0"

fun to_nat :: "endian \<Rightarrow> string \<Rightarrow> nat" where
  "to_nat LittleEndian s = le_nat s"
| "to_nat BigEndian s = le_nat (rev s)"

fun from_nat :: "endian \<Rightarrow> nat \<Rightarrow> nat \<Rightarrow> string" where
  "from_nat LittleEndian n v = map (\<lambda>i. char_of (v div 256 ^ i)) [0..<n]"
| "from_nat BigEndian n v = rev (map (\<lambda>i. char_of (v div 256 ^ i)) [0..<n])"

fun unpack_items :: "endian \<Rightarrow> struct_char list \<Rightarrow> string \<Rightarrow> item list" where
  "unpack_items p [] s = []"
| "unpack_items p (S_c # fs) s = (case s of [] \<Rightarrow> [] | ch # s' \<Rightarrow> Chr ch # unpack_items p fs s')"
| "unpack_items p (f # fs) s =
     Num (to_nat p (take (std_size f) s)) # unpack_items p fs (drop (std_size f) s)"

definition unpack :: "endian \<times> struct_char list \<Rightarrow> string \<Rightarrow> error + item list" where
  "unpack fmt s =
     (if length s \<noteq> calcsize fmt then Inl struct_error
      else Inr (unpack_items (fst fmt) (snd fmt) s))"

fun pack_items :: "endian \<Rightarrow> struct_char list \<Rightarrow> item list \<Rightarrow> error + string" where
  "pack_items p [] [] = Inr []"
| "pack_items p (S_c # fs) (Chr ch # vs) =
     (case pack_items p fs vs of Inl e \<Rightarrow> Inl e | Inr s \<Rightarrow> Inr (ch # s))"
| "pack_items p (S_c # fs) (Num v # vs) = Inl struct_error"
| "pack_items p (f # fs) (Num v # vs) =
     (if v < 256 ^ std_size f
      then (case pack_items p fs vs of Inl e \<Rightarrow> Inl e
            | Inr s \<Rightarrow> Inr (from_nat p (std_size f) v @ s))
      else Inl struct_error)"
| "pack_items p fs vs = Inl struct_error"

definition pack :: "endian \<times> struct_char list \<Rightarrow> item list \<Rightarrow> error + string" where
  "pack fmt args = pack_items (fst fmt) (snd fmt) args"

section \<open>The file object\<close>

text \<open>
  \<open>TiffFile\<close> subclasses \<open>file\<close>: the bytes and the cursor of the open file, plus the
  two attributes the header sets.  Its list of directories is returned beside it.
\<close>

record TiffFile =
  content :: string
  position :: nat
  fmt_prefix :: endian
  bigtiff :: bool

definition tell :: "TiffFile \<Rightarrow> nat" where
  "tell fh = position fh"

definition seek :: "TiffFile \<Rightarrow> nat \<Rightarrow> TiffFile" where
  "seek fh offset = fh\<lparr>position := offset\<rparr>"

text \<open>\<open>file.read(n)\<close>: up to \<open>n\<close> bytes from the cursor, which moves past them.\<close>

definition file_read :: "TiffFile \<Rightarrow> nat \<Rightarrow> string \<times> TiffFile" where
  "file_read fh n =
     (let s = take n (drop (position fh) (content fh))
      in (s, fh\<lparr>position := position fh + length s\<rparr>))"

text \<open>
  \<open>file.write(s)\<close>: the bytes replace those at the cursor and extend the file at its end;
  a cursor beyond the end leaves a gap that reads as zero bytes.  Writing the empty string
  writes nothing.
\<close>

definition file_write :: "TiffFile \<Rightarrow> string \<Rightarrow> TiffFile" where
  "file_write fh s =
     (if s = [] then fh
      else fh\<lparr>content :=
                 take (position fh) (content fh)
                 @ replicate (position fh - length (content fh)) (CHR 0x00)
                 @ s
                 @ drop (position fh + length s) (content fh),
               position := position fh + length s\<rparr>)"

fun translate :: "bool \<Rightarrow> fmt_char \<Rightarrow> struct_char" where
  "translate big Fmt_c = S_c"
| "translate big Fmt_H = S_H"
| "translate big Fmt_I = S_I"
| "translate big Fmt_Q = S_Q"
| "translate big Fmt_Y = (if big then S_Q else S_H)"
| "translate big Fmt_Z = (if big then S_Q else S_I)"

definition convert_format :: "TiffFile \<Rightarrow> fmt_char list \<Rightarrow> endian \<times> struct_char list" where
  "convert_format fh fmt = (fmt_prefix fh, map (translate (bigtiff fh)) fmt)"

definition fmt_size :: "TiffFile \<Rightarrow> fmt_char list \<Rightarrow> nat" where
  "fmt_size fh fmt = calcsize (convert_format fh fmt)"

text \<open>\<open>read_fmt(fmt, force_list=True)\<close>: the tuple of unpacked values.\<close>

definition read_fmt :: "TiffFile \<Rightarrow> fmt_char list \<Rightarrow> error + (item list \<times> TiffFile)" where
  "read_fmt fh fmt =
     (let fmt' = convert_format fh fmt;
          (s, fh') = file_read fh (calcsize fmt')
      in case unpack fmt' s of Inl e \<Rightarrow> Inl e | Inr vals \<Rightarrow> Inr (vals, fh'))"

text \<open>\<open>read_fmt(fmt)\<close> with a format of one item: \<open>vals[0]\<close>.\<close>

definition read_fmt1 :: "TiffFile \<Rightarrow> fmt_char \<Rightarrow> error + (item \<times> TiffFile)" where
  "read_fmt1 fh f =
     (case read_fmt fh [f] of
        Inl e \<Rightarrow> Inl e
      | Inr (vals, fh') \<Rightarrow> (case vals of [v] \<Rightarrow> Inr (v, fh') | _ \<Rightarrow> Inl TypeError))"

definition write_fmt :: "TiffFile \<Rightarrow> fmt_char list \<Rightarrow> item list \<Rightarrow> error + TiffFile" where
  "write_fmt fh fmt args =
     (case pack (convert_format fh fmt) args of
        Inl e \<Rightarrow> Inl e
      | Inr s \<Rightarrow> Inr (file_write fh s))"

section \<open>Entries and directories\<close>

definition ASCII :: nat where "ASCII = 2"
definition SHORT :: nat where "SHORT = 3"
definition LONG :: nat where "LONG = 4"
definition LONG8 :: nat where "LONG8 = 16"

definition IMAGE_DESCRIPTION :: nat where "IMAGE_DESCRIPTION = 270"
definition STRIP_OFFSETS :: nat where "STRIP_OFFSETS = 273"
definition STRIP_BYTE_COUNTS :: nat where "STRIP_BYTE_COUNTS = 279"

record TiffEntry =
  start :: nat
  tag :: nat
  type :: nat
  count :: nat
  value_offset :: nat

record TiffDirectory =
  in_pointer_offset :: nat
  entries :: "nat \<rightharpoonup> TiffEntry"
  out_pointer_offset :: nat

text \<open>
  \<open>TiffEntry.__init__\<close>.  The four values unpacked from \<open>HHZZ\<close> are numbers; a tuple of
  another shape would make the assignment raise \<open>ValueError\<close>.
\<close>

definition TiffEntry_init :: "TiffFile \<Rightarrow> error + (TiffEntry \<times> TiffFile)" where
  "TiffEntry_init fh =
     (let st = tell fh
      in case read_fmt fh [Fmt_H, Fmt_H, Fmt_Z, Fmt_Z] of
           Inl e \<Rightarrow> Inl e
         | Inr (vals, fh') \<Rightarrow>
             (case vals of
                [Num tg, Num ty, Num cnt, Num vo] \<Rightarrow>
                  Inr (\<lparr>start = st, tag = tg, type = ty, count = cnt,
                        value_offset = vo\<rparr>, fh')
              | _ \<Rightarrow> Inl (ValueError ''unpack'')))"

text \<open>The loop of \<open>TiffDirectory.__init__\<close>: each entry is stored under its tag.\<close>

fun read_entries ::
  "nat \<Rightarrow> TiffFile \<Rightarrow> (nat \<rightharpoonup> TiffEntry) \<Rightarrow> error + ((nat \<rightharpoonup> TiffEntry) \<times> TiffFile)" where
  "read_entries 0 fh es = Inr (es, fh)"
| "read_entries (Suc n) fh es =
     (case TiffEntry_init fh of
        Inl e \<Rightarrow> Inl e
      | Inr (entry, fh') \<Rightarrow> read_entries n fh' (es(tag entry \<mapsto> entry)))"

definition TiffDirectory_init :: "TiffFile \<Rightarrow> nat \<Rightarrow> error + (TiffDirectory \<times> TiffFile)" where
  "TiffDirectory_init fh in_pointer =
     (case read_fmt1 fh Fmt_Y of
        Inl e \<Rightarrow> Inl e
      | Inr (cnt, fh1) \<Rightarrow>
          (case cnt of
             Chr _ \<Rightarrow> Inl TypeError
           | Num n \<Rightarrow>
               (case read_entries n fh1 Map.empty of
                  Inl e \<Rightarrow> Inl e
                | Inr (es, fh2) \<Rightarrow>
                    Inr (\<lparr>in_pointer_offset = in_pointer, entries = es,
                          out_pointer_offset = tell fh2\<rparr>, fh2))))"

text \<open>\<open>''.join(items[:-1])\<close>: joining anything but strings raises \<open>TypeError\<close>.\<close>

fun join :: "item list \<Rightarrow> error + string" where
  "join [] = Inr []"
| "join (Chr ch # xs) = (case join xs of Inl e \<Rightarrow> Inl e | Inr s \<Rightarrow> Inr (ch # s))"
| "join (Num n # xs) = Inl TypeError"

text \<open>The \<open>if\<close>/\<open>elif\<close> chain of \<open>TiffEntry.value\<close> that picks the item format.\<close>

definition item_fmt_of :: "nat \<Rightarrow> fmt_char option" where
  "item_fmt_of ty =
     (if ty = ASCII then Some Fmt_c
      else if ty = SHORT then Some Fmt_H
      else if ty = LONG then Some Fmt_I
      else if ty = LONG8 then Some Fmt_Q
      else None)"

text \<open>
  The end of \<open>TiffEntry.value\<close>, from the cursor the method has set: the items are read
  and, for ASCII, checked for the terminator and joined.  \<open>items[-1]\<close> of an empty tuple
  raises \<open>IndexError\<close>.
\<close>

definition read_value ::
  "TiffFile \<Rightarrow> TiffEntry \<Rightarrow> fmt_char list \<Rightarrow> error + (tiff_value \<times> TiffFile)" where
  "read_value fh e fmt =
     (case read_fmt fh fmt of
        Inl err \<Rightarrow> Inl err
      | Inr (items, fh2) \<Rightarrow>
          if type e = ASCII then
            (if items = [] then Inl IndexError
             else if last items \<noteq> Chr (CHR 0x00)
               then Inl (ValueError ''String not null-terminated'')
             else (case join (butlast items) of
                     Inl err \<Rightarrow> Inl err
                   | Inr s \<Rightarrow> Inr (Text s, fh2)))
          else Inr (Items items, fh2))"

definition TiffEntry_value :: "TiffFile \<Rightarrow> TiffEntry \<Rightarrow> error + (tiff_value \<times> TiffFile)" where
  "TiffEntry_value fh e =
     (case item_fmt_of (type e) of
        None \<Rightarrow> Inl (ValueError ''Unsupported type'')
      | Some item_fmt \<Rightarrow>
          (let fmt = replicate (count e) item_fmt;
               len = fmt_size fh fmt
           in if len \<le> fmt_size fh [Fmt_Z]
              then read_value (seek fh (start e + fmt_size fh [Fmt_H, Fmt_H, Fmt_Z])) e fmt
              else read_value (seek fh (value_offset e)) e fmt))"

section \<open>Opening the file\<close>

text \<open>
  The header check of \<open>TiffFile.__init__\<close>.  Before the marker is read the two mode
  attributes are not set; \<open>read(2)\<close> does not use them.
\<close>

definition TiffFile_header :: "string \<Rightarrow> error + TiffFile" where
  "TiffFile_header bs =
     (let fh0 = \<lparr>content = bs, position = 0, fmt_prefix = LittleEndian, bigtiff = False\<rparr>;
          (endian, fh1) = file_read fh0 2
      in if endian \<noteq> ''II'' \<and> endian \<noteq> ''MM'' then Inl (IOError ''Not a TIFF file'')
         else
           (let fh2 = fh1\<lparr>fmt_prefix := (if endian = ''II'' then LittleEndian else BigEndian),
                          bigtiff := False\<rparr>
            in case read_fmt1 fh2 Fmt_H of
                 Inl e \<Rightarrow> Inl e
               | Inr (version, fh3) \<Rightarrow>
                   if version = Num 42 then Inr fh3
                   else if version = Num 43 then
                     (let fh4 = fh3\<lparr>bigtiff := True\<rparr>
                      in case read_fmt fh4 [Fmt_H, Fmt_H] of
                           Inl e \<Rightarrow> Inl e
                         | Inr (vals, fh5) \<Rightarrow>
                             (case vals of
                                [magic2, reserved] \<Rightarrow>
                                  if magic2 \<noteq> Num 8 \<or> reserved \<noteq> Num 0
                                  then Inl (IOError ''Bad BigTIFF header'')
                                  else Inr fh5
                              | _ \<Rightarrow> Inl (ValueError ''unpack'')))
                   else Inl (IOError ''Not a TIFF file'')))"

text \<open>
  The \<open>while True\<close> loop that reads the directories.  It follows the links of the file
  for as long as they are not 0, so it need not return: \<open>None\<close> is the run that never ends.
\<close>

partial_function (option) read_directories ::
  "TiffFile \<Rightarrow> TiffDirectory list \<Rightarrow> (error + (TiffFile \<times> TiffDirectory list)) option" where
  "read_directories fh directories =
     (let in_pointer = tell fh
      in case read_fmt1 fh Fmt_Z of
           Inl e \<Rightarrow> Some (Inl e)
         | Inr (directory_offset, fh1) \<Rightarrow>
             if directory_offset = Num 0 then Some (Inr (fh1, directories))
             else
               (case directory_offset of
                  Chr _ \<Rightarrow> Some (Inl TypeError)
                | Num off \<Rightarrow>
                    (case TiffDirectory_init (seek fh1 off) in_pointer of
                       Inl e \<Rightarrow> Some (Inl e)
                     | Inr (d, fh2) \<Rightarrow> read_directories fh2 (directories @ [d]))))"

definition TiffFile_init :: "string \<Rightarrow> (error + (TiffFile \<times> TiffDirectory list)) option" where
  "TiffFile_init bs =
     (case TiffFile_header bs of
        Inl e \<Rightarrow> Some (Inl e)
      | Inr fh \<Rightarrow> read_directories fh [])"

section \<open>Redacting the label\<close>

definition startswith :: "string \<Rightarrow> string \<Rightarrow> bool" where
  "startswith s prefix \<longleftrightarrow> take (length prefix) s = prefix"

text \<open>
  \<open>str.splitlines()\<close> of Python 2: a line ends at \<open>\n\<close>, \<open>\r\<close> or \<open>\r\n\<close>; the breaks
  are dropped and no empty line follows a final break.  The first argument is the line
  read so far, reversed.
\<close>

fun splitlines_from :: "string \<Rightarrow> string \<Rightarrow> string list" where
  "splitlines_from cur [] = (if cur = [] then [] else [rev cur])"
| "splitlines_from cur (ch # s) =
     (if ch = CHR 0x0A then rev cur # splitlines_from [] s
      else if ch = CHR 0x0D then
        (case s of
           [] \<Rightarrow> [rev cur]
         | ch' # s' \<Rightarrow>
             if ch' = CHR 0x0A then rev cur # splitlines_from [] s'
             else rev cur # splitlines_from [] s)
      else splitlines_from (ch # cur) s)"

definition splitlines :: "string \<Rightarrow> string list" where
  "splitlines s = splitlines_from [] s"

text \<open>
  \<open>sys.getsizeof\<close> of a \<open>str\<close> of \<open>n\<close> bytes: on 64-bit CPython 2.7 the object takes
  37 bytes beside its characters.
\<close>

definition getsizeof_str :: "nat \<Rightarrow> nat" where
  "getsizeof_str n = 37 + n"

text \<open>
  The loop over \<open>zip(offsets, lengths)\<close>.  An element that is a character, which a value
  of type ASCII yields, makes \<open>seek\<close> or the multiplication raise \<open>TypeError\<close>.
\<close>

fun wipe_strips :: "TiffFile \<Rightarrow> nat \<Rightarrow> (item \<times> item) list \<Rightarrow> (error + nat) \<times> TiffFile" where
  "wipe_strips fh write_size [] = (Inr write_size, fh)"
| "wipe_strips fh write_size ((offset, len) # rest) =
     (case offset of
        Chr _ \<Rightarrow> (Inl TypeError, fh)
      | Num off \<Rightarrow>
          (case len of
             Chr _ \<Rightarrow> (Inl TypeError, seek fh off)
           | Num n \<Rightarrow>
               wipe_strips (file_write (seek fh off) (replicate n (CHR 0x00)))
                 (write_size + getsizeof_str n) rest))"

text \<open>
  The body of the loop of \<open>delete_aperio_label\<close> once a directory is the label: its
  strips are wiped, then the directory is taken out of the chain when \<open>delete_entry\<close> is
  set.  The result is the number the program prints, with the file as it is left.
\<close>

definition wipe_label :: "TiffFile \<Rightarrow> bool \<Rightarrow> TiffDirectory \<Rightarrow> (error + nat) \<times> TiffFile" where
  "wipe_label fh delete_entry directory =
     (case entries directory STRIP_OFFSETS of
        None \<Rightarrow> (Inl (IOError ''Label is not stripped''), fh)
      | Some eo \<Rightarrow>
          (case TiffEntry_value fh eo of
             Inl e \<Rightarrow> (Inl e, fh)
           | Inr (offsets, fh1) \<Rightarrow>
               (case entries directory STRIP_BYTE_COUNTS of
                  None \<Rightarrow> (Inl (IOError ''Label is not stripped''), fh1)
                | Some el \<Rightarrow>
                    (case TiffEntry_value fh1 el of
                       Inl e \<Rightarrow> (Inl e, fh1)
                     | Inr (lengths, fh2) \<Rightarrow>
                         (case wipe_strips fh2 0 (zip (iter offsets) (iter lengths)) of
                            (Inl e, fh3) \<Rightarrow> (Inl e, fh3)
                          | (Inr write_size, fh3) \<Rightarrow>
                              (case read_fmt1 (seek fh3 (out_pointer_offset directory)) Fmt_Z of
                                 Inl e \<Rightarrow> (Inl e, fh3)
                               | Inr (out_pointer, fh4) \<Rightarrow>
                                   (let fh5 = seek fh4 (in_pointer_offset directory)
                                    in if delete_entry then
                                         (case write_fmt fh5 [Fmt_Z] [out_pointer] of
                                            Inl e \<Rightarrow> (Inl e, fh5)
                                          | Inr fh6 \<Rightarrow> (Inr write_size, fh6))
                                       else (Inr write_size, fh5))))))))"

text \<open>The \<open>for\<close> loop over the directories, with its \<open>else\<close> branch.\<close>

fun scan :: "TiffFile \<Rightarrow> bool \<Rightarrow> TiffDirectory list \<Rightarrow> (error + nat) \<times> TiffFile" where
  "scan fh delete_entry [] = (Inl (IOError ''Couldn't find Aperio label directory''), fh)"
| "scan fh delete_entry (directory # rest) =
     (case entries directory IMAGE_DESCRIPTION of
        None \<Rightarrow> scan fh delete_entry rest
      | Some entry \<Rightarrow>
          (case TiffEntry_value fh entry of
             Inl e \<Rightarrow> (Inl e, fh)
           | Inr (v, fh1) \<Rightarrow>
               (case v of
                  Items _ \<Rightarrow> (Inl AttributeError, fh1)
                | Text desc \<Rightarrow>
                    if \<not> startswith desc ''Aperio'' then scan fh1 delete_entry rest
                    else
                      (let lines = splitlines desc
                       in if length lines < 2 \<or> \<not> startswith (lines ! 1) ''label ''
                          then scan fh1 delete_entry rest
                          else wipe_label fh1 delete_entry directory))))"

text \<open>
  \<open>delete_aperio_label\<close> on the bytes of the file at \<open>filename\<close>: what the call does
  (an exception or the number of bytes it reports) and the bytes of the file afterwards.
\<close>

definition delete_aperio_label :: "string \<Rightarrow> bool \<Rightarrow> ((error + nat) \<times> string) option" where
  "delete_aperio_label bs delete_entry =
     (case TiffFile_init bs of
        None \<Rightarrow> None
      | Some (Inl e) \<Rightarrow> Some (Inl e, bs)
      | Some (Inr (fh, directories)) \<Rightarrow>
          (case scan fh delete_entry directories of
             (r, fh') \<Rightarrow> Some (r, content fh')))"

section \<open>Notions of the specification\<close>

text \<open>
  The slot width of the active mode, the item size of a type code and the place a value is
  decoded from, as the specification words them: 4 bytes classic and 8 bytes Big; ASCII 1,
  SHORT 2, LONG 4, LONG8 8; inline, after the tag, type and count fields of the entry, when
  \<open>count * item_size\<close> is at most the slot width, and at the offset held in the slot
  otherwise.
\<close>

definition slot_width :: "TiffFile \<Rightarrow> nat" where
  "slot_width fh = (if bigtiff fh then 8 else 4)"

definition item_size :: "nat \<Rightarrow> nat option" where
  "item_size ty =
     (if ty = ASCII then Some 1
      else if ty = SHORT then Some 2
      else if ty = LONG then Some 4
      else if ty = LONG8 then Some 8
      else None)"

definition value_location :: "TiffFile \<Rightarrow> TiffEntry \<Rightarrow> nat \<Rightarrow> nat" where
  "value_location fh e sz =
     (if count e * sz \<le> slot_width fh then start e + (2 + 2 + slot_width fh)
      else value_offset e)"

text \<open>
  What the decoder returns for the bytes stored for a value: for ASCII the text before the
  terminator, which must be there; for a numeric type the \<open>count\<close> numbers held by the
  successive groups of \<open>item_size\<close> bytes, in the byte order of the file.
\<close>

fun chunks :: "nat \<Rightarrow> nat \<Rightarrow> string \<Rightarrow> string list" where
  "chunks 0 sz s = []"
| "chunks (Suc k) sz s = take sz s # chunks k sz (drop sz s)"

definition decode_stored :: "endian \<Rightarrow> nat \<Rightarrow> nat \<Rightarrow> nat \<Rightarrow> string \<Rightarrow> error + tiff_value" where
  "decode_stored p ty cnt sz s =
     (if ty = ASCII then
        (if s = [] then Inl IndexError
         else if last s \<noteq> CHR 0x00 then Inl MalformedString
         else Inr (Text (butlast s)))
      else Inr (Items (map (\<lambda>c. Num (to_nat p c)) (chunks cnt sz s))))"

section \<open>Example inputs\<close>

text \<open>
  A little-endian handle, classic or Big, over the 32 bytes 0, 1, \<dots>, 31, and entries of
  type SHORT at the threshold: their slot is at offset 10 (classic) or 14 (Big) and holds
  the offset 20.
\<close>

definition ramp_fh :: "bool \<Rightarrow> TiffFile" where
  "ramp_fh big = \<lparr>content = map char_of [0 ..< 32], position = 0,
                  fmt_prefix = LittleEndian, bigtiff = big\<rparr>"

definition short_entry :: "nat \<Rightarrow> TiffEntry" where
  "short_entry n = \<lparr>start = 2, tag = 273, type = 3, count = n, value_offset = 20\<rparr>"



text \<open>
  The entries of a directory as they lie on disk, in reading order, and the lookup the
  specification asks of the directory: the last entry read with a given tag.
\<close>
fun read_entry_list :: "nat \<Rightarrow> TiffFile \<Rightarrow> error + (TiffEntry list \<times> TiffFile)" where
  "read_entry_list 0 fh = Inr ([], fh)"
| "read_entry_list (Suc n) fh =
     (case TiffEntry_init fh of
        Inl e \<Rightarrow> Inl e
      | Inr (entry, fh') \<Rightarrow>
          (case read_entry_list n fh' of
             Inl e \<Rightarrow> Inl e
           | Inr (es, fh'') \<Rightarrow> Inr (entry # es, fh'')))"

definition last_with_tag :: "TiffEntry list \<Rightarrow> nat \<Rightarrow> TiffEntry option" where
  "last_with_tag es t = find (\<lambda>e. tag e = t) (rev es)"

text \<open>A directory of two entries that share tag 270, with value slots 1 and 2.\<close>

definition dup_fh :: TiffFile where
  "dup_fh = \<lparr>content = map char_of [2, 0, 14, 1, 3, 0, 1, 0, 0, 0, 1, 0, 0, 0, 14, 1, 3, 0, 1, 0, 0, 0, 2, 0, 0, 0, 0, 0, 0, 0 :: nat], position = 0,
              fmt_prefix = LittleEndian, bigtiff = False\<rparr>"

text \<open>
  The header as the specification reads it: the endianness named by the two marker bytes,
  and the 16-bit field at a byte offset in that endianness, when the file holds it.
\<close>
definition header_endian :: "string \<Rightarrow> endian option" where
  "header_endian bs =
     (if take 2 bs = ''II'' then Some LittleEndian
      else if take 2 bs = ''MM'' then Some BigEndian
      else None)"

definition header_field :: "endian \<Rightarrow> string \<Rightarrow> nat \<Rightarrow> nat option" where
  "header_field p bs off =
     (if off + 2 \<le> length bs then Some (to_nat p (take 2 (drop off bs))) else None)"

text \<open>A classic header, a Big header, and a Big header whose pair is not (8, 0).\<close>

definition hdr_classic :: string where
  "hdr_classic = ''II'' @ map char_of [42, 0, 8, 0, 0, 0 :: nat]"

definition hdr_big :: string where
  "hdr_big = ''MM'' @ map char_of [0, 43, 0, 8, 0, 0, 0, 0, 0, 0, 0, 0, 0, 0 :: nat]"

definition hdr_bad_pair :: string where
  "hdr_bad_pair = ''MM'' @ map char_of [0, 43, 0, 4, 0, 0, 0, 0, 0, 0, 0, 0, 0, 0 :: nat]"

text \<open>
  Two handles on the same file in the same mode: they differ at most in the cursor.
\<close>

definition same_file :: "TiffFile \<Rightarrow> TiffFile \<Rightarrow> bool" where
  "same_file fh fh' \<longleftrightarrow>
     content fh' = content fh \<and> fmt_prefix fh' = fmt_prefix fh \<and> bigtiff fh' = bigtiff fh"

text \<open>
  The match heuristic of the specification: the description text begins with \<open>Aperio\<close> and
  its second line begins with \<open>label \<close>.  A directory is not the label when it has no
  ImageDescription entry or its description is a text that fails the heuristic; it is the
  label when its description is a text that passes it.
\<close>

definition is_label_text :: "string \<Rightarrow> bool" where
  "is_label_text desc \<longleftrightarrow>
     startswith desc ''Aperio'' \<and> 2 \<le> length (splitlines desc)
     \<and> startswith (splitlines desc ! 1) ''label ''"

definition not_label :: "TiffFile \<Rightarrow> TiffDirectory \<Rightarrow> bool" where
  "not_label fh d \<longleftrightarrow>
     (case entries d IMAGE_DESCRIPTION of
        None \<Rightarrow> True
      | Some e \<Rightarrow>
          (case TiffEntry_value fh e of
             Inr (Text desc, _) \<Rightarrow> \<not> is_label_text desc
           | _ \<Rightarrow> False))"

definition is_label :: "TiffFile \<Rightarrow> TiffDirectory \<Rightarrow> bool" where
  "is_label fh d \<longleftrightarrow>
     (case entries d IMAGE_DESCRIPTION of
        None \<Rightarrow> False
      | Some e \<Rightarrow>
          (case TiffEntry_value fh e of
             Inr (Text desc, _) \<Rightarrow> is_label_text desc
           | _ \<Rightarrow> False))"

text \<open>
  The synthetic file of the specification: little-endian classic, one directory at offset 8
  with ImageDescription (36 bytes at offset 50), StripOffsets = [100] and
  StripByteCounts = [20], and 20 bytes \<open>0xFF\<close> of strip data at offset 100.
\<close>

definition synth :: string where
  "synth = ''II'' @ map char_of [42, 0, 8, 0, 0, 0, 3, 0,
         14, 1, 2, 0, 36, 0, 0, 0, 50, 0, 0, 0,
         17, 1, 4, 0, 1, 0, 0, 0, 100, 0, 0, 0,
         23, 1, 4, 0, 1, 0, 0, 0, 20, 0, 0, 0,
         0, 0, 0, 0 :: nat]
     @ ''Aperio Image'' @ [CHR 0x0A] @ ''label 12345x6789 (3x2)'' @ [CHR 0x00]
     @ replicate 14 (CHR 0x00) @ replicate 20 (CHR 0xFF)"


text \<open>
  The description of a label image, as it is stored: two lines and the terminator.
\<close>

definition label_text :: string where
  "label_text = ''Aperio Image'' @ [CHR 0x0A] @ ''label 12345x6789 (3x2)'' @ [CHR 0x00]"

text \<open>
  Three little-endian classic files whose only directory is a label: one with no strip
  entry at all, one with StripOffsets (LONG) but no StripByteCounts, and one whose
  StripOffsets has the type code 1 (BYTE), which \<open>TiffEntry.value\<close> does not decode, and no
  StripByteCounts.
\<close>

definition unstripped_file :: string where
  "unstripped_file = ''II'' @ map char_of [42, 0, 8, 0, 0, 0, 1, 0,
         14, 1, 2, 0, 36, 0, 0, 0, 26, 0, 0, 0,
         0, 0, 0, 0 :: nat] @ label_text"

definition offsets_only_file :: string where
  "offsets_only_file = ''II'' @ map char_of [42, 0, 8, 0, 0, 0, 2, 0,
         14, 1, 2, 0, 36, 0, 0, 0, 38, 0, 0, 0,
         17, 1, 4, 0, 1, 0, 0, 0, 100, 0, 0, 0,
         0, 0, 0, 0 :: nat] @ label_text"

definition byte_strips_file :: string where
  "byte_strips_file = ''II'' @ map char_of [42, 0, 8, 0, 0, 0, 2, 0,
         14, 1, 2, 0, 36, 0, 0, 0, 38, 0, 0, 0,
         17, 1, 1, 0, 1, 0, 0, 0, 100, 0, 0, 0,
         0, 0, 0, 0 :: nat] @ label_text"

text \<open>
  The layout of the chain, as the specification describes it.  A field is the number held
  by \<open>w\<close> bytes at an offset, in the byte order of the file.  A directory at offset
  \<open>off\<close> is its entry count (2 bytes classic, 8 Big), then the entries (12 bytes classic,
  20 Big: tag, type, count, value slot), then the slot of the next link.  The chain from the
  slot at \<open>p\<close> is the list of the slots and the offsets they hold, up to the slot that
  holds 0; \<open>chain k\<close> follows at most \<open>k\<close> links and is \<open>None\<close> when it has not met a 0
  link by then or the file ends before a slot or an entry count.
\<close>

definition field :: "TiffFile \<Rightarrow> nat \<Rightarrow> nat \<Rightarrow> nat" where
  "field fh q w = to_nat (fmt_prefix fh) (take w (drop q (content fh)))"

definition count_width :: "TiffFile \<Rightarrow> nat" where
  "count_width fh = (if bigtiff fh then 8 else 2)"

definition entry_width :: "TiffFile \<Rightarrow> nat" where
  "entry_width fh = 2 + 2 + 2 * slot_width fh"

definition entry_at :: "TiffFile \<Rightarrow> nat \<Rightarrow> TiffEntry" where
  "entry_at fh q =
     \<lparr>start = q, tag = field fh q 2, type = field fh (q + 2) 2,
      count = field fh (q + 4) (slot_width fh),
      value_offset = field fh (q + 4 + slot_width fh) (slot_width fh)\<rparr>"

fun entries_from :: "TiffFile \<Rightarrow> nat \<Rightarrow> nat \<Rightarrow> TiffEntry list" where
  "entries_from fh q 0 = []"
| "entries_from fh q (Suc n) = entry_at fh q # entries_from fh (q + entry_width fh) n"

definition directory_at :: "TiffFile \<Rightarrow> nat \<times> nat \<Rightarrow> TiffDirectory" where
  "directory_at fh x =
     (let n = field fh (snd x) (count_width fh);
          q = snd x + count_width fh
      in \<lparr>in_pointer_offset = fst x,
          entries = last_with_tag (entries_from fh q n),
          out_pointer_offset = q + n * entry_width fh\<rparr>)"

fun chain :: "nat \<Rightarrow> TiffFile \<Rightarrow> nat \<Rightarrow> (nat \<times> nat) list option" where
  "chain 0 fh p = None"
| "chain (Suc k) fh p =
     (if length (content fh) < p + slot_width fh then None
      else (let off = field fh p (slot_width fh)
            in if off = 0 then Some []
               else if length (content fh) < off + count_width fh then None
               else (case chain k fh (out_pointer_offset (directory_at fh (p, off))) of
                       None \<Rightarrow> None
                     | Some c \<Rightarrow> Some ((p, off) # c))))"


text \<open>
  A file whose chain is a cycle: the slot after its only directory, which has no entry,
  holds the offset of that directory.  And a file with two directories, at offsets 8 and
  26, of one entry each (tags 256 and 257, values 5 and 6).
\<close>

definition loop_file :: string where
  "loop_file = ''II'' @ map char_of [42, 0, 8, 0, 0, 0, 0, 0, 8, 0, 0, 0 :: nat]"

definition two_dir_file :: string where
  "two_dir_file = ''II'' @ map char_of [42, 0, 8, 0, 0, 0,
       1, 0, 0, 1, 3, 0, 1, 0, 0, 0, 5, 0, 0, 0, 26, 0, 0, 0,
       1, 0, 1, 1, 3, 0, 1, 0, 0, 0, 6, 0, 0, 0, 0, 0, 0, 0 :: nat]"

section \<open>Formats and reads\<close>

lemma calcsize_simps [simp]:
  "calcsize (p, []) = 0"
  "calcsize (p, f # fs) = std_size f + calcsize (p, fs)"
  "calcsize (p, replicate n f) = n * std_size f"
  by (simp_all add: calcsize_def sum_list_replicate)

lemma fmt_size_Z [simp]: "fmt_size fh [Fmt_Z] = (if bigtiff fh then 8 else 4)"
  by (simp add: fmt_size_def convert_format_def)

lemma fmt_size_HHZ [simp]: "fmt_size fh [Fmt_H, Fmt_H, Fmt_Z] = (if bigtiff fh then 12 else 8)"
  by (simp add: fmt_size_def convert_format_def)

lemma fmt_size_replicate [simp]:
  "fmt_size fh (replicate n f) = n * std_size (translate (bigtiff fh) f)"
  by (simp add: fmt_size_def convert_format_def)

lemma seek_simps [simp]:
  "content (seek fh p) = content fh"
  "position (seek fh p) = p"
  "fmt_prefix (seek fh p) = fmt_prefix fh"
  "bigtiff (seek fh p) = bigtiff fh"
  by (simp_all add: seek_def)

lemma read_fmt_eq:
  "read_fmt fh fmt =
     (if fmt_size fh fmt = 0 \<or> position fh + fmt_size fh fmt \<le> length (content fh)
      then Inr (unpack_items (fmt_prefix fh) (map (translate (bigtiff fh)) fmt)
                  (take (fmt_size fh fmt) (drop (position fh) (content fh))),
                fh\<lparr>position := position fh + fmt_size fh fmt\<rparr>)
      else Inl struct_error)"
  by (auto simp: read_fmt_def file_read_def unpack_def fmt_size_def convert_format_def
        Let_def min_def)

lemma item_fmt_of_size:
  "item_size ty = Some sz \<Longrightarrow>
     \<exists>f. item_fmt_of ty = Some f \<and> std_size (translate big f) = sz"
  by (auto simp: item_size_def item_fmt_of_def split: if_splits)

section \<open>ASCII values\<close>

lemma unpack_items_c [simp]:
  "unpack_items p (replicate (length s) S_c) s = map Chr s"
  by (induction s) auto

lemma join_map_Chr [simp]: "join (map Chr s) = Inr s"
  by (induction s) auto

lemma read_value_ascii:
  assumes "type e = ASCII" and "position fh + n \<le> length (content fh)"
  shows "read_value fh e (replicate n Fmt_c) =
     (let s = take n (drop (position fh) (content fh))
      in if s = [] then Inl IndexError
         else if last s \<noteq> CHR 0x00 then Inl MalformedString
         else Inr (Text (butlast s), fh\<lparr>position := position fh + n\<rparr>))"
proof -
  let ?s = "take n (drop (position fh) (content fh))"
  have len: "length ?s = n" using assms(2) by simp
  have u: "unpack_items (fmt_prefix fh) (replicate n S_c) ?s = map Chr ?s"
    using unpack_items_c [of "fmt_prefix fh" ?s] len by simp
  show ?thesis
    using assms u
    by (auto simp: read_value_def read_fmt_eq Let_def MalformedString_def last_map
          map_butlast [symmetric])
qed

lemma value_ascii:
  assumes "type e = ASCII"
  shows "TiffEntry_value fh e =
           read_value (seek fh (value_location fh e 1)) e (replicate (count e) Fmt_c)"
  using assms
  by (simp add: TiffEntry_value_def item_fmt_of_def value_location_def slot_width_def Let_def)



section \<open>Inline and out-of-line values\<close>

lemma fmt_size_Nil [simp]: "fmt_size fh [] = 0"
  by (simp add: fmt_size_def convert_format_def)

lemma unpack_items_numeric:
  "f \<noteq> S_c \<Longrightarrow>
     unpack_items p (replicate k f) s = map (\<lambda>c. Num (to_nat p c)) (chunks k (std_size f) s)"
  by (induction k arbitrary: s) (cases f; simp)+

lemma item_fmt_numeric:
  "item_size ty = Some sz \<Longrightarrow> ty \<noteq> ASCII \<Longrightarrow>
     \<exists>f. item_fmt_of ty = Some f \<and> std_size (translate big f) = sz \<and> translate big f \<noteq> S_c"
  by (auto simp: item_size_def item_fmt_of_def split: if_splits)

lemma read_value_numeric:
  assumes "type e \<noteq> ASCII" and "translate (bigtiff fh) f \<noteq> S_c"
  shows "read_value fh e (replicate k f) =
     (let n = k * std_size (translate (bigtiff fh) f)
      in if n \<noteq> 0 \<and> length (content fh) < position fh + n then Inl struct_error
         else Inr (Items (map (\<lambda>c. Num (to_nat (fmt_prefix fh) c))
                      (chunks k (std_size (translate (bigtiff fh) f))
                         (take n (drop (position fh) (content fh))))),
                   fh\<lparr>position := position fh + n\<rparr>))"
  using assms unpack_items_numeric [OF assms(2), of "fmt_prefix fh" k]
  by (auto simp: read_value_def read_fmt_eq Let_def)

lemma read_value_ascii_short:
  assumes "type e = ASCII" and "n \<noteq> 0" and "length (content fh) < position fh + n"
  shows "read_value fh e (replicate n Fmt_c) = Inl struct_error"
  using assms by (simp add: read_value_def read_fmt_eq)

lemma read_value_stored:
  assumes "item_size (type e) = Some sz" and "item_fmt_of (type e) = Some f"
  shows "read_value fh e (replicate (count e) f) =
     (let n = count e * sz
      in if n \<noteq> 0 \<and> length (content fh) < position fh + n then Inl struct_error
         else (case decode_stored (fmt_prefix fh) (type e) (count e) sz
                      (take n (drop (position fh) (content fh))) of
                 Inl err \<Rightarrow> Inl err
               | Inr v \<Rightarrow> Inr (v, fh\<lparr>position := position fh + n\<rparr>)))"
proof (cases "type e = ASCII")
  case True
  with assms have sz: "sz = 1" and f: "f = Fmt_c"
    by (simp_all add: item_size_def item_fmt_of_def)
  consider "count e = 0" | "count e \<noteq> 0" "length (content fh) < position fh + count e"
    | "position fh + count e \<le> length (content fh)" "count e \<noteq> 0"
    by linarith
  then show ?thesis
  proof cases
    case 1
    then show ?thesis using True
      by (simp add: sz f read_value_def read_fmt_eq Let_def decode_stored_def)
  next
    case 2
    then show ?thesis using True
      by (simp add: sz f read_value_ascii_short)
  next
    case 3
    from read_value_ascii [OF True 3(1)] 3 True show ?thesis
      by (simp add: sz f Let_def decode_stored_def)
  qed
next
  case False
  from item_fmt_numeric [OF assms(1) False, of "bigtiff fh"] assms(2)
  have f: "std_size (translate (bigtiff fh) f) = sz" "translate (bigtiff fh) f \<noteq> S_c"
    by auto
  show ?thesis
    unfolding read_value_numeric [OF False f(2)]
    using False f(1) by (simp add: Let_def decode_stored_def)
qed

text \<open>
  Claim C4.  For an entry whose type code is supported, \<open>TiffEntry.value\<close> decodes the
  \<open>count * item_size\<close> bytes of the file that start at the entry's start plus the widths
  of tag, type and count exactly when \<open>count * item_size\<close> is at most the slot width of
  the mode (4 classic, 8 Big), equality included, and the bytes that start at the offset
  held in the slot when it is larger.  The value is what those bytes decode to, the cursor
  is left behind them, and a file that ends before them gives \<open>struct.error\<close>.
\<close>

theorem value_inline_iff:
  assumes "item_size (type e) = Some sz"
  shows "TiffEntry_value fh e =
     (let n = count e * sz;
          loc = (if n \<le> slot_width fh then start e + (2 + 2 + slot_width fh)
                 else value_offset e)
      in if n \<noteq> 0 \<and> length (content fh) < loc + n then Inl struct_error
         else (case decode_stored (fmt_prefix fh) (type e) (count e) sz
                      (take n (drop loc (content fh))) of
                 Inl err \<Rightarrow> Inl err
               | Inr v \<Rightarrow> Inr (v, fh\<lparr>position := loc + n\<rparr>)))"
proof -
  from item_fmt_of_size [OF assms, of "bigtiff fh"]
  obtain f where f: "item_fmt_of (type e) = Some f" "std_size (translate (bigtiff fh) f) = sz"
    by blast
  define loc where "loc = (if count e * sz \<le> slot_width fh
      then start e + (2 + 2 + slot_width fh) else value_offset e)"
  have "TiffEntry_value fh e = read_value (seek fh loc) e (replicate (count e) f)"
    using f by (simp add: TiffEntry_value_def loc_def slot_width_def Let_def)
  also have "\<dots> =
     (let n = count e * sz
      in if n \<noteq> 0 \<and> length (content fh) < loc + n then Inl struct_error
         else (case decode_stored (fmt_prefix fh) (type e) (count e) sz
                      (take n (drop loc (content fh))) of
                 Inl err \<Rightarrow> Inl err
               | Inr v \<Rightarrow> Inr (v, fh\<lparr>position := loc + n\<rparr>)))"
    unfolding read_value_stored [OF assms f(1)]
    by (simp add: seek_def Let_def cong: if_cong sum.case_cong)
  finally show ?thesis unfolding Let_def loc_def .
qed

lemma chunks_numeral [simp]:
  "chunks (numeral k) sz s = take sz s # chunks (pred_numeral k) sz (drop sz s)"
  by (simp add: numeral_eq_Suc)

lemma ramp_content: "content (ramp_fh big) = map char_of [0, 1, 2, 3, 4, 5, 6, 7, 8, 9, 10, 11, 12, 13, 14, 15, 16, 17, 18, 19, 20, 21, 22, 23, 24, 25, 26, 27, 28, 29, 30, 31 :: nat]"
  by (simp add: ramp_fh_def upt_rec)

theorem value_inline_iff_witness:
  "TiffEntry_value (ramp_fh False) (short_entry 2) =
      Inr (Items [Num 2826, Num 3340], (ramp_fh False)\<lparr>position := 14\<rparr>)
   \<and> TiffEntry_value (ramp_fh False) (short_entry 3) =
      Inr (Items [Num 5396, Num 5910, Num 6424], (ramp_fh False)\<lparr>position := 26\<rparr>)
   \<and> TiffEntry_value (ramp_fh True) (short_entry 4) =
      Inr (Items [Num 3854, Num 4368, Num 4882, Num 5396], (ramp_fh True)\<lparr>position := 22\<rparr>)
   \<and> TiffEntry_value (ramp_fh True) (short_entry 5) =
      Inr (Items [Num 5396, Num 5910, Num 6424, Num 6938, Num 7452],
           (ramp_fh True)\<lparr>position := 30\<rparr>)"
proof -
  have h: "item_size (type (short_entry n)) = Some 2" for n
    by (simp add: short_entry_def item_size_def ASCII_def SHORT_def)
  have p: "fmt_prefix (ramp_fh big) = LittleEndian" "bigtiff (ramp_fh big) = big" for big
    by (simp_all add: ramp_fh_def)
  have 1: "TiffEntry_value (ramp_fh False) (short_entry 2) =
      Inr (Items [Num 2826, Num 3340], (ramp_fh False)\<lparr>position := 14\<rparr>)"
    using value_inline_iff [where e = "short_entry 2" and fh = "ramp_fh False", OF h]
    by (simp add: ramp_content p slot_width_def short_entry_def decode_stored_def ASCII_def
          le_nat_def)
  have 2: "TiffEntry_value (ramp_fh False) (short_entry 3) =
      Inr (Items [Num 5396, Num 5910, Num 6424], (ramp_fh False)\<lparr>position := 26\<rparr>)"
    using value_inline_iff [where e = "short_entry 3" and fh = "ramp_fh False", OF h]
    by (simp add: ramp_content p slot_width_def short_entry_def decode_stored_def ASCII_def
          le_nat_def)
  have 3: "TiffEntry_value (ramp_fh True) (short_entry 4) =
      Inr (Items [Num 3854, Num 4368, Num 4882, Num 5396], (ramp_fh True)\<lparr>position := 22\<rparr>)"
    using value_inline_iff [where e = "short_entry 4" and fh = "ramp_fh True", OF h]
    by (simp add: ramp_content p slot_width_def short_entry_def decode_stored_def ASCII_def
          le_nat_def)
  have 4: "TiffEntry_value (ramp_fh True) (short_entry 5) =
      Inr (Items [Num 5396, Num 5910, Num 6424, Num 6938, Num 7452],
           (ramp_fh True)\<lparr>position := 30\<rparr>)"
    using value_inline_iff [where e = "short_entry 5" and fh = "ramp_fh True", OF h]
    by (simp add: ramp_content p slot_width_def short_entry_def decode_stored_def ASCII_def
          le_nat_def)
  from 1 2 3 4 show ?thesis by (intro conjI)
qed

section \<open>Directories\<close>

lemma find_rev_snoc:
  "find P (rev (x # xs)) = (case find P (rev xs) of Some y \<Rightarrow> Some y | None \<Rightarrow> if P x then Some x else None)"
  by (induction xs rule: rev_induct) (auto split: option.splits)

lemma find_append: "find P (xs @ ys) = (case find P xs of Some y \<Rightarrow> Some y | None \<Rightarrow> find P ys)"
  by (induction xs) auto

lemma read_entries_list:
  "read_entries n fh m =
     (case read_entry_list n fh of
        Inl e \<Rightarrow> Inl e
      | Inr (es, fh') \<Rightarrow>
          Inr (\<lambda>t. case last_with_tag es t of Some e \<Rightarrow> Some e | None \<Rightarrow> m t, fh'))"
proof (induction n arbitrary: fh m)
  case 0
  show ?case by (simp add: last_with_tag_def)
next
  case (Suc n)
  show ?case
  proof (cases "TiffEntry_init fh")
    case (Inl e)
    then show ?thesis by simp
  next
    case (Inr r)
    obtain entry fh' where r: "r = (entry, fh')" by (cases r)
    show ?thesis
    proof (cases "read_entry_list n fh'")
      case (Inl e)
      with Inr r Suc show ?thesis by simp
    next
      case (Inr q)
      obtain es fh'' where q: "q = (es, fh'')" by (cases q)
      have "(\<lambda>t. case last_with_tag es t of Some e \<Rightarrow> Some e | None \<Rightarrow> (m(tag entry \<mapsto> entry)) t)
          = (\<lambda>t. case last_with_tag (entry # es) t of Some e \<Rightarrow> Some e | None \<Rightarrow> m t)"
        by (rule ext) (auto simp: last_with_tag_def find_append split: option.splits)
      with Inr q \<open>TiffEntry_init fh = Inr r\<close> r Suc show ?thesis by simp
    qed
  qed
qed

lemma length_read_entry_list:
  "read_entry_list n fh = Inr (es, fh') \<Longrightarrow> length es = n"
  by (induction n arbitrary: fh es) (auto split: sum.splits)

text \<open>
  Claim C9.  The lookup structure built by \<open>TiffDirectory.__init__\<close> maps each tag to the
  last entry read with that tag: among entries sharing a tag on disk the last one wins, and
  a tag has one entry.
\<close>

theorem directory_last_wins:
  assumes "TiffDirectory_init fh ip = Inr (d, fh')"
  shows "\<exists>n fh1 es. read_fmt1 fh Fmt_Y = Inr (Num n, fh1)
           \<and> read_entry_list n fh1 = Inr (es, fh') \<and> length es = n
           \<and> (\<forall>t. entries d t = last_with_tag es t)"
proof -
  from assms obtain n fh1 where c: "read_fmt1 fh Fmt_Y = Inr (Num n, fh1)"
    by (auto simp: TiffDirectory_init_def split: sum.splits item.splits)
  with assms obtain m where m: "read_entries n fh1 Map.empty = Inr (m, fh')" "entries d = m"
    by (auto simp: TiffDirectory_init_def split: sum.splits)
  from m(1) obtain es where es: "read_entry_list n fh1 = Inr (es, fh')"
    and me: "m = (\<lambda>t. case last_with_tag es t of Some e \<Rightarrow> Some e | None \<Rightarrow> None)"
    by (auto simp: read_entries_list split: sum.splits)
  have "\<forall>t. entries d t = last_with_tag es t"
    using m(2) me by (auto split: option.splits)
  with c es length_read_entry_list [OF es] show ?thesis by blast
qed

lemmas eval_simps = read_fmt1_def read_fmt_eq fmt_size_def convert_format_def calcsize_def
  TiffEntry_init_def TiffDirectory_init_def tell_def le_nat_def Let_def

lemma read_entries_numeral [simp]:
  "read_entries (numeral k) fh es =
     (case TiffEntry_init fh of
        Inl e \<Rightarrow> Inl e
      | Inr (entry, fh') \<Rightarrow> read_entries (pred_numeral k) fh' (es(tag entry \<mapsto> entry)))"
  by (simp add: numeral_eq_Suc)

lemma read_entry_list_numeral [simp]:
  "read_entry_list (numeral k) fh =
     (case TiffEntry_init fh of
        Inl e \<Rightarrow> Inl e
      | Inr (entry, fh') \<Rightarrow>
          (case read_entry_list (pred_numeral k) fh' of
             Inl e \<Rightarrow> Inl e
           | Inr (es, fh'') \<Rightarrow> Inr (entry # es, fh'')))"
  by (simp add: numeral_eq_Suc)

lemma dup_eval:
  "\<exists>d. TiffDirectory_init dup_fh 4 = Inr (d, dup_fh\<lparr>position := 26\<rparr>)
      \<and> map_option value_offset (entries d 270) = Some 2"
  by (simp add: dup_fh_def eval_simps)

lemma dup_list:
  "\<exists>es. read_entry_list 2 (dup_fh\<lparr>position := 2\<rparr>) = Inr (es, dup_fh\<lparr>position := 26\<rparr>)
      \<and> map value_offset es = [1, 2] \<and> map tag es = [270, 270]"
  by (simp add: dup_fh_def eval_simps)

lemma dup_count: "read_fmt1 dup_fh Fmt_Y = Inr (Num 2, dup_fh\<lparr>position := 2\<rparr>)"
  by (simp add: dup_fh_def eval_simps)

theorem directory_last_wins_witness:
  "\<exists>d. TiffDirectory_init dup_fh 4 = Inr (d, dup_fh\<lparr>position := 26\<rparr>)
      \<and> map_option value_offset (entries d 270) = Some 2
      \<and> (\<exists>n fh1 es. read_fmt1 dup_fh Fmt_Y = Inr (Num n, fh1)
            \<and> read_entry_list n fh1 = Inr (es, dup_fh\<lparr>position := 26\<rparr>) \<and> length es = n
            \<and> (\<forall>t. entries d t = last_with_tag es t))"
proof -
  from dup_eval obtain d
    where e: "TiffDirectory_init dup_fh 4 = Inr (d, dup_fh\<lparr>position := 26\<rparr>)"
      and v: "map_option value_offset (entries d 270) = Some 2"
    by (elim exE conjE)
  from directory_last_wins [OF e]
  have c: "\<exists>n fh1 es. read_fmt1 dup_fh Fmt_Y = Inr (Num n, fh1)
            \<and> read_entry_list n fh1 = Inr (es, dup_fh\<lparr>position := 26\<rparr>) \<and> length es = n
            \<and> (\<forall>t. entries d t = last_with_tag es t)" .
  from e v c
  have "TiffDirectory_init dup_fh 4 = Inr (d, dup_fh\<lparr>position := 26\<rparr>)
      \<and> map_option value_offset (entries d 270) = Some 2
      \<and> (\<exists>n fh1 es. read_fmt1 dup_fh Fmt_Y = Inr (Num n, fh1)
            \<and> read_entry_list n fh1 = Inr (es, dup_fh\<lparr>position := 26\<rparr>) \<and> length es = n
            \<and> (\<forall>t. entries d t = last_with_tag es t))"
    by (intro conjI)
  then show ?thesis by (rule exI [of _ d])
qed

section \<open>The header\<close>

lemma read_H:
  "read_fmt1 fh Fmt_H =
     (if position fh + 2 \<le> length (content fh)
      then Inr (Num (to_nat (fmt_prefix fh) (take 2 (drop (position fh) (content fh)))),
                fh\<lparr>position := position fh + 2\<rparr>)
      else Inl struct_error)"
  by (simp add: read_fmt1_def read_fmt_eq fmt_size_def convert_format_def)

lemma read_HH:
  "read_fmt fh [Fmt_H, Fmt_H] =
     (if position fh + 4 \<le> length (content fh)
      then Inr ([Num (to_nat (fmt_prefix fh) (take 2 (drop (position fh) (content fh)))),
                 Num (to_nat (fmt_prefix fh) (take 2 (drop (position fh + 2) (content fh))))],
                fh\<lparr>position := position fh + 4\<rparr>)
      else Inl struct_error)"
  by (simp add: read_fmt_eq fmt_size_def convert_format_def drop_take add.commute numeral_2_eq_2)

lemma marker_length: "take 2 bs = [a, b] \<Longrightarrow> 2 \<le> length bs"
  by (metis length_take min.cobounded1 length_Cons list.size(3) One_nat_def Suc_1)

lemma TiffFile_header_eq:
  "TiffFile_header bs =
     (case header_endian bs of
        None \<Rightarrow> Inl NotATiffFile
      | Some p \<Rightarrow>
          (case header_field p bs 2 of
             None \<Rightarrow> Inl struct_error
           | Some version \<Rightarrow>
               if version = 42
               then Inr \<lparr>content = bs, position = 4, fmt_prefix = p, bigtiff = False\<rparr>
               else if version = 43 then
                 (case (header_field p bs 4, header_field p bs 6) of
                    (Some magic2, Some reserved) \<Rightarrow>
                      if magic2 = 8 \<and> reserved = 0
                      then Inr \<lparr>content = bs, position = 8, fmt_prefix = p, bigtiff = True\<rparr>
                      else Inl BadBigTiffHeader
                  | _ \<Rightarrow> Inl struct_error)
               else Inl NotATiffFile))"
proof (cases "header_endian bs")
  case None
  then show ?thesis
    by (auto simp: TiffFile_header_def header_endian_def file_read_def NotATiffFile_def Let_def
          split: if_splits)
next
  case (Some p)
  then have m: "take 2 bs = ''II'' \<or> take 2 bs = ''MM''"
    by (auto simp: header_endian_def split: if_splits)
  then have len: "2 \<le> length bs" by (auto dest: marker_length)
  have p: "p = (if take 2 bs = ''II'' then LittleEndian else BigEndian)"
    using Some by (auto simp: header_endian_def split: if_splits)
  show ?thesis
    using m len Some
    by (auto simp: TiffFile_header_def file_read_def Let_def read_H read_HH header_field_def p
          NotATiffFile_def BadBigTiffHeader_def min_def split: if_splits)
qed

text \<open>
  Claim C3.  The header check of \<open>TiffFile.__init__\<close> succeeds exactly when the first two
  bytes are \<open>II\<close> or \<open>MM\<close> and the 16-bit version field is 42, or is 43 and is followed by
  the 16-bit values 8 and 0.  On success the endianness is the one the marker names, the
  mode is Big exactly for version 43, and the cursor is where the traversal begins.  Every
  failure is a FormatError.
\<close>

theorem header_resolution:
  "((\<exists>fh. TiffFile_header bs = Inr fh) \<longleftrightarrow>
      (\<exists>p. header_endian bs = Some p \<and>
           (header_field p bs 2 = Some 42 \<or>
            header_field p bs 2 = Some 43 \<and> header_field p bs 4 = Some 8
              \<and> header_field p bs 6 = Some 0)))
   \<and> (\<forall>fh. TiffFile_header bs = Inr fh \<longrightarrow>
          header_endian bs = Some (fmt_prefix fh)
          \<and> (bigtiff fh \<longleftrightarrow> header_field (fmt_prefix fh) bs 2 = Some 43)
          \<and> content fh = bs \<and> position fh = (if bigtiff fh then 8 else 4))
   \<and> (\<forall>e. TiffFile_header bs = Inl e \<longrightarrow> FormatError e)"
  by (auto simp: TiffFile_header_eq FormatError_def split: option.splits if_splits)

lemma hdr_fields:
  "header_endian hdr_classic = Some LittleEndian"
  "header_field LittleEndian hdr_classic 2 = Some 42"
  "header_endian hdr_big = Some BigEndian"
  "header_field BigEndian hdr_big 2 = Some 43"
  "header_field BigEndian hdr_big 4 = Some 8"
  "header_field BigEndian hdr_big 6 = Some 0"
  "header_endian hdr_bad_pair = Some BigEndian"
  "header_field BigEndian hdr_bad_pair 2 = Some 43"
  "header_field BigEndian hdr_bad_pair 4 = Some 4"
  by (simp_all add: header_endian_def header_field_def hdr_classic_def hdr_big_def
        hdr_bad_pair_def le_nat_def)

theorem header_resolution_witness:
  "(\<exists>fh. TiffFile_header hdr_classic = Inr fh \<and> fmt_prefix fh = LittleEndian \<and> \<not> bigtiff fh)
   \<and> (\<exists>fh. TiffFile_header hdr_big = Inr fh \<and> fmt_prefix fh = BigEndian \<and> bigtiff fh)
   \<and> (\<exists>e. TiffFile_header hdr_bad_pair = Inl e \<and> FormatError e)"
proof -
  have a: "\<exists>fh. TiffFile_header hdr_classic = Inr fh \<and> fmt_prefix fh = LittleEndian \<and> \<not> bigtiff fh"
    using header_resolution [of hdr_classic] by (auto simp: hdr_fields)
  have b: "\<exists>fh. TiffFile_header hdr_big = Inr fh \<and> fmt_prefix fh = BigEndian \<and> bigtiff fh"
    using header_resolution [of hdr_big] by (auto simp: hdr_fields)
  have "\<not> (\<exists>fh. TiffFile_header hdr_bad_pair = Inr fh)"
    using header_resolution [of hdr_bad_pair] by (simp add: hdr_fields)
  then have c: "\<exists>e. TiffFile_header hdr_bad_pair = Inl e \<and> FormatError e"
    using header_resolution [of hdr_bad_pair] by (cases "TiffFile_header hdr_bad_pair") auto
  from a b c show ?thesis by (intro conjI)
qed

section \<open>Reading leaves the file as it is\<close>

lemma same_file_refl [simp]: "same_file fh fh"
  by (simp add: same_file_def)

lemma same_file_trans: "same_file a b \<Longrightarrow> same_file b c \<Longrightarrow> same_file a c"
  by (simp add: same_file_def)

lemma same_file_seek [simp]: "same_file fh (seek fh p)"
  by (simp add: same_file_def)

lemma seek_same: "same_file fh fh' \<Longrightarrow> seek fh' p = seek fh p"
  by (simp add: same_file_def seek_def)

lemma fmt_size_same: "same_file fh fh' \<Longrightarrow> fmt_size fh' fmt = fmt_size fh fmt"
  by (simp add: same_file_def fmt_size_def convert_format_def)

lemma read_fmt_same: "read_fmt fh fmt = Inr (vals, fh') \<Longrightarrow> same_file fh fh'"
  by (auto simp: read_fmt_eq same_file_def split: if_splits)


lemma read_value_same: "read_value fh e fmt = Inr (v, fh') \<Longrightarrow> same_file fh fh'"
  by (auto simp: read_value_def split: sum.splits if_splits dest: read_fmt_same)

lemma TiffEntry_value_same:
  "TiffEntry_value fh e = Inr (v, fh') \<Longrightarrow> same_file fh fh'"
  by (auto simp: TiffEntry_value_def Let_def same_file_def
        split: option.splits if_splits dest!: read_value_same)

lemma TiffEntry_value_cong:
  assumes "same_file fh fh'"
  shows "TiffEntry_value fh' e = TiffEntry_value fh e"
proof -
  have b: "bigtiff fh' = bigtiff fh" using assms by (simp add: same_file_def)
  show ?thesis
    using seek_same [OF assms] b
    by (simp add: TiffEntry_value_def Let_def split: option.splits)
qed

lemma not_label_cong: "same_file fh fh' \<Longrightarrow> not_label fh' d = not_label fh d"
  by (simp add: not_label_def TiffEntry_value_cong cong: option.case_cong)

lemma is_label_cong: "same_file fh fh' \<Longrightarrow> is_label fh' d = is_label fh d"
  by (simp add: is_label_def TiffEntry_value_cong cong: option.case_cong)

lemma scan_skip_step:
  assumes "not_label fh d"
  shows "\<exists>fh'. same_file fh fh' \<and> scan fh u (d # ds) = scan fh' u ds"
proof (cases "entries d IMAGE_DESCRIPTION")
  case None
  then have "scan fh u (d # ds) = scan fh u ds" by simp
  then show ?thesis using same_file_refl by blast
next
  case (Some e)
  with assms obtain desc fh' where v: "TiffEntry_value fh e = Inr (Text desc, fh')"
    and n: "\<not> is_label_text desc"
    by (auto simp: not_label_def split: sum.splits tiff_value.splits)
  from v have s: "same_file fh fh'" by (rule TiffEntry_value_same)
  from Some v n have "scan fh u (d # ds) = scan fh' u ds"
    by (auto simp: is_label_text_def Let_def not_le)
  with s show ?thesis by blast
qed

lemma scan_label_step:
  assumes "is_label fh d"
  shows "\<exists>fh'. same_file fh fh' \<and> scan fh u (d # ds) = wipe_label fh' u d"
proof -
  from assms obtain e desc fh' where e: "entries d IMAGE_DESCRIPTION = Some e"
    and v: "TiffEntry_value fh e = Inr (Text desc, fh')" and n: "is_label_text desc"
    by (auto simp: is_label_def split: option.splits sum.splits tiff_value.splits)
  from v have s: "same_file fh fh'" by (rule TiffEntry_value_same)
  from e v n have "scan fh u (d # ds) = wipe_label fh' u d"
    by (auto simp: is_label_text_def Let_def not_le)
  with s show ?thesis by blast
qed

lemma scan_skip_all:
  "\<forall>d\<in>set pre. not_label fh d \<Longrightarrow>
     \<exists>fh'. same_file fh fh' \<and> scan fh u (pre @ rest) = scan fh' u rest"
proof (induction pre arbitrary: fh)
  case Nil
  show ?case using same_file_refl by (simp only: append_Nil) blast
next
  case (Cons d pre)
  from Cons.prems have "not_label fh d" by simp
  from scan_skip_step [OF this, of u "pre @ rest"]
  obtain fh1 where s1: "same_file fh fh1" and e1: "scan fh u (d # pre @ rest) = scan fh1 u (pre @ rest)"
    by blast
  from Cons.prems s1 have "\<forall>x\<in>set pre. not_label fh1 x"
    by (simp add: not_label_cong)
  from Cons.IH [OF this] obtain fh2 where s2: "same_file fh1 fh2"
    and e2: "scan fh1 u (pre @ rest) = scan fh2 u rest" by blast
  from s1 s2 have "same_file fh fh2" by (rule same_file_trans)
  with e1 e2 show ?case by (simp only: append_Cons) metis
qed





lemma TiffFile_header_content: "TiffFile_header bs = Inr fh \<Longrightarrow> content fh = bs"
  by (auto simp: TiffFile_header_eq split: option.splits if_splits prod.splits)


section \<open>The chain of directories\<close>

lemma char_of_zero [simp]: "char_of (0::nat) = CHR 0x00"
  by (simp add: char_of_def)

lemma read_directories_step:
  "read_fmt1 fh Fmt_Z = Inr (Num off, fh1) \<Longrightarrow> off \<noteq> 0 \<Longrightarrow>
   TiffDirectory_init (seek fh1 off) (tell fh) = Inr (d, fh2) \<Longrightarrow>
   read_directories fh acc = read_directories fh2 (acc @ [d])"
  by (subst read_directories.simps) simp

lemma read_directories_stop:
  "read_fmt1 fh Fmt_Z = Inr (Num 0, fh1) \<Longrightarrow> read_directories fh acc = Some (Inr (fh1, acc))"
  by (subst read_directories.simps) simp

lemma read_slot:
  "position fh + slot_width fh \<le> length (content fh) \<Longrightarrow>
     read_fmt1 fh Fmt_Z =
       Inr (Num (field fh (position fh) (slot_width fh)),
            fh\<lparr>position := position fh + slot_width fh\<rparr>)"
  by (cases "bigtiff fh")
    (simp_all add: read_fmt1_def read_fmt_eq field_def slot_width_def convert_format_def
       fmt_size_def)

lemma read_count:
  "position fh + count_width fh \<le> length (content fh) \<Longrightarrow>
     read_fmt1 fh Fmt_Y =
       Inr (Num (field fh (position fh) (count_width fh)),
            fh\<lparr>position := position fh + count_width fh\<rparr>)"
  by (cases "bigtiff fh")
    (simp_all add: read_fmt1_def read_fmt_eq field_def count_width_def convert_format_def
       fmt_size_def)

lemma Suc4_eq: "Suc (Suc (Suc (Suc p))) = p + 4"
  by simp

lemma TiffEntry_init_at:
  assumes "position fh + entry_width fh \<le> length (content fh)"
  shows "TiffEntry_init fh =
       Inr (entry_at fh (position fh), fh\<lparr>position := position fh + entry_width fh\<rparr>)"
  using assms
  by (cases "bigtiff fh")
    (simp_all add: TiffEntry_init_def read_fmt_eq field_def entry_width_def slot_width_def
        convert_format_def fmt_size_def entry_at_def tell_def drop_take add.commute
        numeral_2_eq_2 Suc4_eq)


lemma field_position [simp]: "field (fh\<lparr>position := x\<rparr>) = field fh"
  by (rule ext)+ (simp add: field_def)

lemma widths_position [simp]:
  "slot_width (fh\<lparr>position := x\<rparr>) = slot_width fh"
  "count_width (fh\<lparr>position := x\<rparr>) = count_width fh"
  "entry_width (fh\<lparr>position := x\<rparr>) = entry_width fh"
  by (simp_all add: slot_width_def count_width_def entry_width_def)

lemma entry_at_position [simp]: "entry_at (fh\<lparr>position := x\<rparr>) = entry_at fh"
  by (rule ext) (simp add: entry_at_def)

lemma entries_from_position [simp]:
  "entries_from (fh\<lparr>position := x\<rparr>) q n = entries_from fh q n"
  by (induction n arbitrary: q) simp_all

lemma read_entry_list_at:
  "position fh + n * entry_width fh \<le> length (content fh) \<Longrightarrow>
     read_entry_list n fh =
       Inr (entries_from fh (position fh) n, fh\<lparr>position := position fh + n * entry_width fh\<rparr>)"
proof (induction n arbitrary: fh)
  case 0
  show ?case by simp
next
  case (Suc n)
  let ?fh = "fh\<lparr>position := position fh + entry_width fh\<rparr>"
  from Suc.prems have a: "position fh + entry_width fh \<le> length (content fh)" by simp
  from Suc.prems have b: "position ?fh + n * entry_width ?fh \<le> length (content ?fh)"
    by (simp add: add.assoc)
  show ?case
    by (simp add: TiffEntry_init_at [OF a] Suc.IH [OF b] add.assoc)
qed

lemma TiffDirectory_init_at:
  assumes "off + count_width fh \<le> length (content fh)"
    and "out_pointer_offset (directory_at fh (p, off)) \<le> length (content fh)"
  shows "TiffDirectory_init (seek fh off) p =
       Inr (directory_at fh (p, off),
            fh\<lparr>position := out_pointer_offset (directory_at fh (p, off))\<rparr>)"
proof -
  let ?n = "field fh off (count_width fh)"
  let ?fh1 = "fh\<lparr>position := off + count_width fh\<rparr>"
  have c: "read_fmt1 (seek fh off) Fmt_Y = Inr (Num ?n, ?fh1)"
    using read_count [of "seek fh off"] assms(1) by (simp add: seek_def)
  have "position ?fh1 + ?n * entry_width ?fh1 \<le> length (content ?fh1)"
    using assms(2) by (simp add: directory_at_def Let_def)
  from read_entry_list_at [OF this]
  have l: "read_entry_list ?n ?fh1 =
      Inr (entries_from fh (off + count_width fh) ?n,
           fh\<lparr>position := off + count_width fh + ?n * entry_width fh\<rparr>)"
    by simp
  have m: "(\<lambda>t. case last_with_tag es t of Some e \<Rightarrow> Some e | None \<Rightarrow> Map.empty t)
       = last_with_tag es" for es :: "TiffEntry list"
    by (rule ext) (simp split: option.splits)
  show ?thesis
    by (simp add: TiffDirectory_init_def c read_entries_list l m directory_at_def Let_def tell_def)
qed

lemma directory_at_position [simp]: "directory_at (fh\<lparr>position := x\<rparr>) = directory_at fh"
  by (rule ext) (simp add: directory_at_def)

lemma chain_position [simp]: "chain k (fh\<lparr>position := x\<rparr>) p = chain k fh p"
  by (induction k arbitrary: p) (simp_all add: Let_def)

lemma chain_out_pointer:
  "chain k fh p = Some c \<Longrightarrow> p + slot_width fh \<le> length (content fh)"
  by (cases k) (auto split: if_splits)

lemma chain_walk:
  "chain k fh (position fh) = Some c \<Longrightarrow>
     \<exists>q. read_directories fh acc =
            Some (Inr (fh\<lparr>position := q\<rparr>, acc @ map (directory_at fh) c))"
proof (induction k arbitrary: fh acc c)
  case 0
  then show ?case by simp
next
  case (Suc k)
  let ?p = "position fh"
  let ?off = "field fh ?p (slot_width fh)"
  let ?fh1 = "fh\<lparr>position := ?p + slot_width fh\<rparr>"
  from Suc.prems have len: "?p + slot_width fh \<le> length (content fh)"
    by (rule chain_out_pointer)
  note slot = read_slot [OF len]
  show ?case
  proof (cases "?off = 0")
    case True
    with Suc.prems len have "c = []" by (simp add: Let_def)
    moreover from slot True have "read_directories fh acc = Some (Inr (?fh1, acc))"
      by (simp add: read_directories_stop)
    ultimately show ?thesis by auto
  next
    case False
    let ?d = "directory_at fh (?p, ?off)"
    let ?fh2 = "fh\<lparr>position := out_pointer_offset ?d\<rparr>"
    from Suc.prems len False
    obtain c' where cw: "?off + count_width fh \<le> length (content fh)"
      and c': "chain k fh (out_pointer_offset ?d) = Some c'" and c: "c = (?p, ?off) # c'"
      by (auto simp: Let_def split: if_splits option.splits)
    from c' have "out_pointer_offset ?d + slot_width fh \<le> length (content fh)"
      by (rule chain_out_pointer)
    then have o: "out_pointer_offset (directory_at ?fh1 (?p, ?off)) \<le> length (content ?fh1)"
      by simp
    have cw1: "?off + count_width ?fh1 \<le> length (content ?fh1)" using cw by simp
    from TiffDirectory_init_at [OF cw1 o]
    have d: "TiffDirectory_init (seek ?fh1 ?off) (tell fh) = Inr (?d, ?fh2)"
      by (simp add: tell_def)
    from read_directories_step [OF slot False d]
    have s: "read_directories fh acc = read_directories ?fh2 (acc @ [?d])" .
    have "chain k ?fh2 (position ?fh2) = Some c'" using c' by simp
    from Suc.IH [OF this, of "acc @ [?d]"]
    obtain q where "read_directories ?fh2 (acc @ [?d]) =
        Some (Inr (?fh2\<lparr>position := q\<rparr>, (acc @ [?d]) @ map (directory_at ?fh2) c'))"
      by (elim exE)
    with s c show ?thesis by auto
  qed
qed

lemma entries_from_numeral [simp]:
  "entries_from fh q (numeral n) =
     entry_at fh q # entries_from fh (q + entry_width fh) (pred_numeral n)"
  by (simp add: numeral_eq_Suc)

lemma chain_numeral:
  "chain (numeral n) fh p =
     (if length (content fh) < p + slot_width fh then None
      else (let off = field fh p (slot_width fh)
            in if off = 0 then Some []
               else if length (content fh) < off + count_width fh then None
               else (case chain (pred_numeral n) fh (out_pointer_offset (directory_at fh (p, off))) of
                       None \<Rightarrow> None
                     | Some c \<Rightarrow> Some ((p, off) # c))))"
  by (simp add: numeral_eq_Suc)

lemma chain_one:
  "chain (Suc 0) fh p =
     (if length (content fh) < p + slot_width fh then None
      else (let off = field fh p (slot_width fh)
            in if off = 0 then Some [] else None))"
  by (simp add: Let_def)

lemma TiffFile_init_chain:
  assumes "TiffFile_header bs = Inr fh" and "chain k fh (position fh) = Some c"
  shows "\<exists>q. TiffFile_init bs = Some (Inr (fh\<lparr>position := q\<rparr>, map (directory_at fh) c))"
  using chain_walk [OF assms(2), of "[]"] assms(1) by (simp add: TiffFile_init_def)

lemma same_file_position [simp]: "same_file fh (fh\<lparr>position := q\<rparr>)"
  by (simp add: same_file_def)

section \<open>A file without a label\<close>











section \<open>The synthetic file and the reported total\<close>

lemma synth_len: "length synth = 120"
  by (simp add: synth_def)

lemma synth_header:
  "TiffFile_header synth =
     Inr \<lparr>content = synth, position = 4, fmt_prefix = LittleEndian, bigtiff = False\<rparr>"
  by (simp add: TiffFile_header_eq header_endian_def header_field_def synth_def le_nat_def)

lemma wipe_strips_total:
  "fst (wipe_strips fh acc (map (\<lambda>(off, n). (Num off, Num n)) ps)) =
     Inr (acc + sum_list (map snd ps) + 37 * length ps)"
  by (induction ps arbitrary: fh acc) (simp_all add: getsizeof_str_def split_beta)

lemma synth_run:
  "delete_aperio_label synth False = Some (Inr 57, take 100 synth @ replicate 20 (CHR 0x00))"
  apply (simp add: delete_aperio_label_def TiffFile_init_def synth_header)
  apply (subst read_directories.simps)
  apply (simp add: eval_simps synth_len)
  apply (simp add: synth_def)
  apply (subst read_directories.simps)
  apply (simp add: eval_simps)
  apply (simp add: IMAGE_DESCRIPTION_def value_ascii ASCII_def
     value_location_def slot_width_def)
  apply (simp add: read_value_ascii ASCII_def startswith_def splitlines_def)
  apply (simp add: wipe_label_def STRIP_OFFSETS_def STRIP_BYTE_COUNTS_def TiffEntry_value_def
     item_fmt_of_def ASCII_def SHORT_def LONG_def LONG8_def read_value_def eval_simps
     getsizeof_str_def file_write_def)
  done

text \<open>
  Claim C1.  On the synthetic file of the specification, whose label directory has
  StripOffsets = [100] and StripByteCounts = [20], \<open>delete_aperio_label\<close> zeroes the bytes
  [100,120) and keeps all others, but the total it reports is 57 and not 20.  For each
  strip the program adds \<open>sys.getsizeof('\0' * length)\<close>, the size of the string object,
  which is 37 bytes more than its length; so for strips of lengths \<open>n\<^sub>1, \<dots>, n\<^sub>k\<close> the
  loop reports \<open>n\<^sub>1 + \<dots> + n\<^sub>k + 37 * k\<close>, whatever the file and the offsets.
\<close>

theorem reported_total_synth:
  "delete_aperio_label synth False = Some (Inr 57, take 100 synth @ replicate 20 (CHR 0x00))
   \<and> fst (wipe_strips fh 0 (map (\<lambda>(off, n). (Num off, Num n)) ps)) =
       Inr (sum_list (map snd ps) + 37 * length ps)"
  using synth_run wipe_strips_total [of fh 0 ps] by simp

section \<open>A label without strips\<close>

lemma label_reached:
  assumes "TiffFile_header bs = Inr fh"
    and "chain k fh (position fh) = Some (pre @ x # rest)"
    and "\<forall>y\<in>set pre. not_label fh (directory_at fh y)"
    and "is_label fh (directory_at fh x)"
  shows "\<exists>fh'. same_file fh fh' \<and> content fh' = bs \<and>
           delete_aperio_label bs u =
             (case wipe_label fh' u (directory_at fh x) of (r, fh'') \<Rightarrow> Some (r, content fh''))"
proof -
  from TiffFile_init_chain [OF assms(1,2)]
  obtain q where i: "TiffFile_init bs =
      Some (Inr (fh\<lparr>position := q\<rparr>, map (directory_at fh) (pre @ x # rest)))"
    by (elim exE)
  let ?fh = "fh\<lparr>position := q\<rparr>"
  let ?d = "directory_at fh x"
  have "\<forall>d\<in>set (map (directory_at fh) pre). not_label ?fh d"
    using assms(3) by (simp add: not_label_cong [of fh ?fh])
  from scan_skip_all [OF this, of u "?d # map (directory_at fh) rest"]
  obtain fh1 where s1: "same_file ?fh fh1"
    "scan ?fh u (map (directory_at fh) (pre @ x # rest)) = scan fh1 u (?d # map (directory_at fh) rest)"
    by auto
  have f1: "same_file fh fh1" using same_file_position s1(1) by (rule same_file_trans)
  from assms(4) f1 have "is_label fh1 ?d" by (simp add: is_label_cong)
  from scan_label_step [OF this, of u "map (directory_at fh) rest"]
  obtain fh2 where s2: "same_file fh1 fh2"
    "scan fh1 u (?d # map (directory_at fh) rest) = wipe_label fh2 u ?d"
    by (elim exE conjE)
  have f2: "same_file fh fh2" using f1 s2(1) by (rule same_file_trans)
  have c: "content fh2 = bs"
    using f2 TiffFile_header_content [OF assms(1)] by (simp add: same_file_def)
  have "delete_aperio_label bs u =
      (case wipe_label fh2 u ?d of (r, fh'') \<Rightarrow> Some (r, content fh''))"
    using i s1(2) s2(2) by (simp add: delete_aperio_label_def)
  with f2 c show ?thesis by blast
qed

lemma wipe_label_no_strips:
  "entries d STRIP_OFFSETS = None \<Longrightarrow> wipe_label fh u d = (Inl MissingStripInfo, fh)"
  "entries d STRIP_OFFSETS = Some eo \<Longrightarrow> TiffEntry_value fh eo = Inl err \<Longrightarrow>
     wipe_label fh u d = (Inl err, fh)"
  "entries d STRIP_OFFSETS = Some eo \<Longrightarrow> TiffEntry_value fh eo = Inr (v, fh1) \<Longrightarrow>
     entries d STRIP_BYTE_COUNTS = None \<Longrightarrow> wipe_label fh u d = (Inl MissingStripInfo, fh1)"
  by (simp_all add: wipe_label_def MissingStripInfo_def)

text \<open>
  Claim C5, amended.  Let the header be accepted, the chain of links reach a 0 link, and
  the first directory of the chain that the scan does not skip be a label.  If the label
  has no StripOffsets entry, \<open>delete_aperio_label\<close> raises
  \<open>IOError('Label is not stripped')\<close>, the MissingStripInfo of the specification.  If it
  has one whose value does not decode, the error of the decoding is raised.  If it has one
  whose value decodes and there is no StripByteCounts entry, MissingStripInfo is raised.  In
  the three cases the bytes of the file are what they were.
\<close>

theorem missing_strip_info:
  assumes "TiffFile_header bs = Inr fh"
    and "chain k fh (position fh) = Some (pre @ x # rest)"
    and "\<forall>y\<in>set pre. not_label fh (directory_at fh y)"
    and "is_label fh (directory_at fh x)"
  shows "(entries (directory_at fh x) STRIP_OFFSETS = None \<longrightarrow>
            delete_aperio_label bs u = Some (Inl MissingStripInfo, bs))
     \<and> (\<forall>eo err. entries (directory_at fh x) STRIP_OFFSETS = Some eo
            \<and> TiffEntry_value fh eo = Inl err \<longrightarrow>
            delete_aperio_label bs u = Some (Inl err, bs))
     \<and> (\<forall>eo v fh1. entries (directory_at fh x) STRIP_OFFSETS = Some eo
            \<and> TiffEntry_value fh eo = Inr (v, fh1)
            \<and> entries (directory_at fh x) STRIP_BYTE_COUNTS = None \<longrightarrow>
            delete_aperio_label bs u = Some (Inl MissingStripInfo, bs))"
proof -
  let ?d = "directory_at fh x"
  from label_reached [OF assms, of u]
  obtain fh' where s: "same_file fh fh'" and c: "content fh' = bs"
    and r: "delete_aperio_label bs u =
             (case wipe_label fh' u ?d of (r, fh'') \<Rightarrow> Some (r, content fh''))"
    by (elim exE conjE)
  note v = TiffEntry_value_cong [OF s]
  have 1: "delete_aperio_label bs u = Some (Inl MissingStripInfo, bs)"
    if "entries ?d STRIP_OFFSETS = None"
    using that r c by (simp add: wipe_label_no_strips(1))
  have 2: "delete_aperio_label bs u = Some (Inl err, bs)"
    if "entries ?d STRIP_OFFSETS = Some eo" "TiffEntry_value fh eo = Inl err" for eo err
  proof -
    from that(2) have "TiffEntry_value fh' eo = Inl err" by (simp add: v)
    from wipe_label_no_strips(2) [OF that(1) this] r c show ?thesis by simp
  qed
  have 3: "delete_aperio_label bs u = Some (Inl MissingStripInfo, bs)"
    if "entries ?d STRIP_OFFSETS = Some eo" "TiffEntry_value fh eo = Inr (v, fh1)"
      "entries ?d STRIP_BYTE_COUNTS = None" for eo v fh1
  proof -
    from that(2) have e: "TiffEntry_value fh' eo = Inr (v, fh1)" by (simp add: v)
    from TiffEntry_value_same [OF e] c have "content fh1 = bs" by (simp add: same_file_def)
    with wipe_label_no_strips(3) [OF that(1) e that(3)] r show ?thesis by simp
  qed
  from 1 2 3 show ?thesis by blast
qed

lemma unstripped_header:
  "TiffFile_header unstripped_file =
     Inr \<lparr>content = unstripped_file, position = 4, fmt_prefix = LittleEndian, bigtiff = False\<rparr>"
  by (simp add: TiffFile_header_eq header_endian_def header_field_def unstripped_file_def le_nat_def)

lemma offsets_only_header:
  "TiffFile_header offsets_only_file =
     Inr \<lparr>content = offsets_only_file, position = 4, fmt_prefix = LittleEndian, bigtiff = False\<rparr>"
  by (simp add: TiffFile_header_eq header_endian_def header_field_def offsets_only_file_def le_nat_def)

lemma byte_strips_header:
  "TiffFile_header byte_strips_file =
     Inr \<lparr>content = byte_strips_file, position = 4, fmt_prefix = LittleEndian, bigtiff = False\<rparr>"
  by (simp add: TiffFile_header_eq header_endian_def header_field_def byte_strips_file_def le_nat_def)

lemma byte_strips_run:
  "delete_aperio_label byte_strips_file u = Some (Inl UnsupportedValueType, byte_strips_file)"
  apply (simp add: delete_aperio_label_def TiffFile_init_def byte_strips_header)
  apply (subst read_directories.simps)
  apply (simp add: eval_simps byte_strips_file_def label_text_def)
  apply (subst read_directories.simps)
  apply (simp add: eval_simps)
  apply (simp add: IMAGE_DESCRIPTION_def value_ascii ASCII_def
     value_location_def slot_width_def)
  apply (simp add: read_value_ascii ASCII_def startswith_def splitlines_def)
  apply (simp add: wipe_label_def STRIP_OFFSETS_def STRIP_BYTE_COUNTS_def TiffEntry_value_def
     item_fmt_of_def ASCII_def SHORT_def LONG_def LONG8_def UnsupportedValueType_def)
  done

lemmas layout_simps = directory_at_def slot_width_def count_width_def entry_width_def field_def
  le_nat_def Let_def last_with_tag_def entry_at_def entries_from_numeral

lemma unstripped_chain:
  "chain 2 \<lparr>content = unstripped_file, position = 4, fmt_prefix = LittleEndian,
      bigtiff = False\<rparr> 4 = Some [(4, 8)]"
  by (simp add: chain_numeral chain_one unstripped_file_def label_text_def layout_simps)

lemma offsets_only_chain:
  "chain 2 \<lparr>content = offsets_only_file, position = 4, fmt_prefix = LittleEndian,
      bigtiff = False\<rparr> 4 = Some [(4, 8)]"
  by (simp add: chain_numeral chain_one offsets_only_file_def label_text_def layout_simps)

lemma byte_strips_chain:
  "chain 2 \<lparr>content = byte_strips_file, position = 4, fmt_prefix = LittleEndian,
      bigtiff = False\<rparr> 4 = Some [(4, 8)]"
  by (simp add: chain_numeral chain_one byte_strips_file_def label_text_def layout_simps)

lemma unstripped_label:
  "is_label \<lparr>content = unstripped_file, position = 4, fmt_prefix = LittleEndian, bigtiff = False\<rparr>
     (directory_at \<lparr>content = unstripped_file, position = 4, fmt_prefix = LittleEndian,
        bigtiff = False\<rparr> (4, 8))
   \<and> entries (directory_at \<lparr>content = unstripped_file, position = 4, fmt_prefix = LittleEndian,
        bigtiff = False\<rparr> (4, 8)) STRIP_OFFSETS = None"
  apply (simp add: is_label_def unstripped_file_def label_text_def layout_simps
        IMAGE_DESCRIPTION_def STRIP_OFFSETS_def)
  apply (simp add: value_ascii ASCII_def value_location_def slot_width_def)
  apply (simp add: read_value_ascii ASCII_def is_label_text_def startswith_def splitlines_def)
  done

lemma offsets_only_label:
  "is_label \<lparr>content = offsets_only_file, position = 4, fmt_prefix = LittleEndian, bigtiff = False\<rparr>
     (directory_at \<lparr>content = offsets_only_file, position = 4, fmt_prefix = LittleEndian,
        bigtiff = False\<rparr> (4, 8))
   \<and> (\<exists>eo fh1. entries (directory_at \<lparr>content = offsets_only_file, position = 4,
        fmt_prefix = LittleEndian, bigtiff = False\<rparr> (4, 8)) STRIP_OFFSETS = Some eo
      \<and> TiffEntry_value \<lparr>content = offsets_only_file, position = 4,
        fmt_prefix = LittleEndian, bigtiff = False\<rparr> eo = Inr (Items [Num 100], fh1))
   \<and> entries (directory_at \<lparr>content = offsets_only_file, position = 4, fmt_prefix = LittleEndian,
        bigtiff = False\<rparr> (4, 8)) STRIP_BYTE_COUNTS = None"
  apply (simp add: is_label_def offsets_only_file_def label_text_def layout_simps
        IMAGE_DESCRIPTION_def STRIP_OFFSETS_def STRIP_BYTE_COUNTS_def)
  apply (simp add: value_ascii ASCII_def value_location_def slot_width_def)
  apply (simp add: read_value_ascii ASCII_def is_label_text_def startswith_def splitlines_def)
  apply (simp add: TiffEntry_value_def item_fmt_of_def ASCII_def SHORT_def LONG_def LONG8_def
     read_value_def eval_simps)
  done

lemma byte_strips_label:
  "is_label \<lparr>content = byte_strips_file, position = 4, fmt_prefix = LittleEndian, bigtiff = False\<rparr>
     (directory_at \<lparr>content = byte_strips_file, position = 4, fmt_prefix = LittleEndian,
        bigtiff = False\<rparr> (4, 8))
   \<and> (\<exists>eo. entries (directory_at \<lparr>content = byte_strips_file, position = 4,
        fmt_prefix = LittleEndian, bigtiff = False\<rparr> (4, 8)) STRIP_OFFSETS = Some eo
      \<and> TiffEntry_value \<lparr>content = byte_strips_file, position = 4,
        fmt_prefix = LittleEndian, bigtiff = False\<rparr> eo = Inl UnsupportedValueType)
   \<and> entries (directory_at \<lparr>content = byte_strips_file, position = 4, fmt_prefix = LittleEndian,
        bigtiff = False\<rparr> (4, 8)) STRIP_BYTE_COUNTS = None"
  apply (simp add: is_label_def byte_strips_file_def label_text_def layout_simps
        IMAGE_DESCRIPTION_def STRIP_OFFSETS_def STRIP_BYTE_COUNTS_def)
  apply (simp add: value_ascii ASCII_def value_location_def slot_width_def)
  apply (simp add: read_value_ascii ASCII_def is_label_text_def startswith_def splitlines_def)
  apply (simp add: TiffEntry_value_def item_fmt_of_def ASCII_def SHORT_def LONG_def LONG8_def
     UnsupportedValueType_def)
  done

theorem missing_strip_info_witness:
  "delete_aperio_label unstripped_file True = Some (Inl MissingStripInfo, unstripped_file)
   \<and> delete_aperio_label byte_strips_file True = Some (Inl UnsupportedValueType, byte_strips_file)
   \<and> delete_aperio_label offsets_only_file True = Some (Inl MissingStripInfo, offsets_only_file)"
proof -
  let ?a = "\<lparr>content = unstripped_file, position = 4, fmt_prefix = LittleEndian,
    bigtiff = False\<rparr>"
  let ?b = "\<lparr>content = byte_strips_file, position = 4, fmt_prefix = LittleEndian,
    bigtiff = False\<rparr>"
  let ?c = "\<lparr>content = offsets_only_file, position = 4, fmt_prefix = LittleEndian,
    bigtiff = False\<rparr>"
  have ca: "chain 2 ?a (position ?a) = Some ([] @ (4, 8) # [])"
    using unstripped_chain by simp
  have cb: "chain 2 ?b (position ?b) = Some ([] @ (4, 8) # [])"
    using byte_strips_chain by simp
  have cc: "chain 2 ?c (position ?c) = Some ([] @ (4, 8) # [])"
    using offsets_only_chain by simp
  have na: "\<forall>y\<in>set []. not_label ?a (directory_at ?a y)" by simp
  have nb: "\<forall>y\<in>set []. not_label ?b (directory_at ?b y)" by simp
  have nc: "\<forall>y\<in>set []. not_label ?c (directory_at ?c y)" by simp
  note la = unstripped_label [THEN conjunct1]
  note ea = unstripped_label [THEN conjunct2]
  note lb = byte_strips_label [THEN conjunct1]
  from byte_strips_label [THEN conjunct2, THEN conjunct1]
  obtain eo where eb: "entries (directory_at ?b (4, 8)) STRIP_OFFSETS = Some eo
      \<and> TiffEntry_value ?b eo = Inl UnsupportedValueType"
    by (rule exE)
  note lc = offsets_only_label [THEN conjunct1]
  from offsets_only_label [THEN conjunct2, THEN conjunct1]
  obtain eo' fh1 where ec1: "entries (directory_at ?c (4, 8)) STRIP_OFFSETS = Some eo'
      \<and> TiffEntry_value ?c eo' = Inr (Items [Num 100], fh1)"
    by (elim exE)
  note ec2 = offsets_only_label [THEN conjunct2, THEN conjunct2]
  from ec1 ec2 have ec: "entries (directory_at ?c (4, 8)) STRIP_OFFSETS = Some eo'
      \<and> TiffEntry_value ?c eo' = Inr (Items [Num 100], fh1)
      \<and> entries (directory_at ?c (4, 8)) STRIP_BYTE_COUNTS = None"
    by (intro conjI) (erule conjunct1, erule conjunct2, assumption)
  from missing_strip_info [OF unstripped_header ca na la, of True, THEN conjunct1] ea
  have 1: "delete_aperio_label unstripped_file True = Some (Inl MissingStripInfo, unstripped_file)"
    by (rule mp)
  from missing_strip_info [OF byte_strips_header cb nb lb, of True, THEN conjunct2, THEN conjunct1]
  have "\<forall>eo err. entries (directory_at ?b (4, 8)) STRIP_OFFSETS = Some eo
            \<and> TiffEntry_value ?b eo = Inl err \<longrightarrow>
            delete_aperio_label byte_strips_file True = Some (Inl err, byte_strips_file)" .
  then have "entries (directory_at ?b (4, 8)) STRIP_OFFSETS = Some eo
            \<and> TiffEntry_value ?b eo = Inl UnsupportedValueType \<longrightarrow>
            delete_aperio_label byte_strips_file True =
              Some (Inl UnsupportedValueType, byte_strips_file)"
    by (elim allE)
  from this eb
  have 2: "delete_aperio_label byte_strips_file True =
      Some (Inl UnsupportedValueType, byte_strips_file)"
    by (rule mp)
  from missing_strip_info [OF offsets_only_header cc nc lc, of True, THEN conjunct2, THEN conjunct2]
  have "\<forall>eo v fh1. entries (directory_at ?c (4, 8)) STRIP_OFFSETS = Some eo
            \<and> TiffEntry_value ?c eo = Inr (v, fh1)
            \<and> entries (directory_at ?c (4, 8)) STRIP_BYTE_COUNTS = None \<longrightarrow>
            delete_aperio_label offsets_only_file True =
              Some (Inl MissingStripInfo, offsets_only_file)" .
  then have "entries (directory_at ?c (4, 8)) STRIP_OFFSETS = Some eo'
            \<and> TiffEntry_value ?c eo' = Inr (Items [Num 100], fh1)
            \<and> entries (directory_at ?c (4, 8)) STRIP_BYTE_COUNTS = None \<longrightarrow>
            delete_aperio_label offsets_only_file True =
              Some (Inl MissingStripInfo, offsets_only_file)"
    by (elim allE)
  from this ec
  have 3: "delete_aperio_label offsets_only_file True =
      Some (Inl MissingStripInfo, offsets_only_file)"
    by (rule mp)
  from 1 2 3 show ?thesis by (intro conjI)
qed

text \<open>
  The claim as the specification words it fails on a label whose StripByteCounts is absent
  and whose StripOffsets has an unsupported type: the error is UnsupportedValueType.
\<close>

theorem missing_strip_info_counterexample:
  "(\<exists>fh. TiffFile_header byte_strips_file = Inr fh
       \<and> chain 2 fh (position fh) = Some [(4, 8)]
       \<and> is_label fh (directory_at fh (4, 8))
       \<and> entries (directory_at fh (4, 8)) STRIP_BYTE_COUNTS = None)
   \<and> delete_aperio_label byte_strips_file False =
       Some (Inl UnsupportedValueType, byte_strips_file)
   \<and> delete_aperio_label byte_strips_file True =
       Some (Inl UnsupportedValueType, byte_strips_file)
   \<and> UnsupportedValueType \<noteq> MissingStripInfo"
proof -
  let ?b = "\<lparr>content = byte_strips_file, position = 4, fmt_prefix = LittleEndian,
    bigtiff = False\<rparr>"
  note l = byte_strips_label [THEN conjunct1]
  note e = byte_strips_label [THEN conjunct2, THEN conjunct2]
  have h: "TiffFile_header byte_strips_file = Inr ?b" by (rule byte_strips_header)
  have c: "chain 2 ?b (position ?b) = Some [(4, 8)]" using byte_strips_chain by simp
  from h c l e have "TiffFile_header byte_strips_file = Inr ?b
       \<and> chain 2 ?b (position ?b) = Some [(4, 8)]
       \<and> is_label ?b (directory_at ?b (4, 8))
       \<and> entries (directory_at ?b (4, 8)) STRIP_BYTE_COUNTS = None"
    by (intro conjI)
  then have "\<exists>fh. TiffFile_header byte_strips_file = Inr fh
       \<and> chain 2 fh (position fh) = Some [(4, 8)]
       \<and> is_label fh (directory_at fh (4, 8))
       \<and> entries (directory_at fh (4, 8)) STRIP_BYTE_COUNTS = None"
    by (rule exI)
  then show ?thesis
    by (simp add: byte_strips_run UnsupportedValueType_def MissingStripInfo_def)
qed

section \<open>Termination of the traversal\<close>

lemma read_slot_ok:
  assumes "read_fmt1 fh Fmt_Z = Inr (v, fh1)"
  shows "position fh + slot_width fh \<le> length (content fh)"
  using assms
  by (cases "bigtiff fh")
    (auto simp: read_fmt1_def read_fmt_eq slot_width_def fmt_size_def convert_format_def
       split: if_splits)

lemma read_count_ok:
  assumes "read_fmt1 fh Fmt_Y = Inr (v, fh1)"
  shows "position fh + count_width fh \<le> length (content fh)"
  using assms
  by (cases "bigtiff fh")
    (auto simp: read_fmt1_def read_fmt_eq count_width_def fmt_size_def convert_format_def
       split: if_splits)

lemma TiffEntry_init_ok:
  assumes "TiffEntry_init fh = Inr (e, fh1)"
  shows "position fh + entry_width fh \<le> length (content fh)"
  using assms
  by (cases "bigtiff fh")
    (auto simp: TiffEntry_init_def read_fmt_eq entry_width_def slot_width_def fmt_size_def
       convert_format_def split: if_splits)

lemma read_entries_position:
  "read_entries n fh m = Inr (es, fh') \<Longrightarrow>
     fh' = fh\<lparr>position := position fh + n * entry_width fh\<rparr>"
proof (induction n arbitrary: fh m)
  case 0
  then show ?case by simp
next
  case (Suc n)
  from Suc.prems obtain e fh1 where e: "TiffEntry_init fh = Inr (e, fh1)"
    and r: "read_entries n fh1 (m(tag e \<mapsto> e)) = Inr (es, fh')"
    by (auto split: sum.splits)
  from TiffEntry_init_at [OF TiffEntry_init_ok [OF e]] e
  have "fh1 = fh\<lparr>position := position fh + entry_width fh\<rparr>" by simp
  with Suc.IH [OF r] show ?case by (simp add: add.assoc)
qed

lemma TiffDirectory_init_ok:
  assumes "TiffDirectory_init (seek fh off) p = Inr (d, fh2)"
  shows "off + count_width fh \<le> length (content fh)
     \<and> fh2 = fh\<lparr>position := out_pointer_offset (directory_at fh (p, off))\<rparr>"
proof -
  from assms obtain v fh1 where c: "read_fmt1 (seek fh off) Fmt_Y = Inr (v, fh1)"
    by (auto simp: TiffDirectory_init_def split: sum.splits)
  from read_count_ok [OF c] have len: "off + count_width fh \<le> length (content fh)"
    by (simp add: count_width_def)
  from read_count [of "seek fh off"] len c
  have v: "v = Num (field fh off (count_width fh))"
    and fh1: "fh1 = fh\<lparr>position := off + count_width fh\<rparr>"
    by (simp_all add: seek_def count_width_def field_def)
  from assms c v obtain es where
    "read_entries (field fh off (count_width fh)) fh1 Map.empty = Inr (es, fh2)"
    by (auto simp: TiffDirectory_init_def split: sum.splits)
  from read_entries_position [OF this] fh1
  have "fh2 = fh\<lparr>position := out_pointer_offset (directory_at fh (p, off))\<rparr>"
    by (simp add: directory_at_def Let_def)
  with len show ?thesis by simp
qed

lemma chain_Suc_nonzero:
  assumes "p + slot_width fh \<le> length (content fh)"
    and "field fh p (slot_width fh) \<noteq> 0"
    and "field fh p (slot_width fh) + count_width fh \<le> length (content fh)"
    and "chain k fh (out_pointer_offset (directory_at fh (p, field fh p (slot_width fh)))) = Some c"
  shows "chain (Suc k) fh p = Some ((p, field fh p (slot_width fh)) # c)"
  using assms by (simp add: Let_def)

lemma walk_chain:
  assumes "read_directories fh acc = Some r"
  shows "\<forall>fh' ds. r = Inr (fh', ds) \<longrightarrow> (\<exists>k c. chain k fh (position fh) = Some c)"
proof (rule read_directories.raw_induct
    [where P = "\<lambda>fh acc r. \<forall>fh' ds. r = Inr (fh', ds) \<longrightarrow>
        (\<exists>k c. chain k fh (position fh) = Some c)", OF _ assms],
    goal_cases)
  case (1 rd fh acc r)
  show ?case
  proof (intro allI impI)
    fix fh' ds
    assume r: "r = Inr (fh', ds)"
    from 1(2) r obtain v fh1 where s: "read_fmt1 fh Fmt_Z = Inr (v, fh1)"
      by (auto simp: Let_def split: sum.splits)
    note len = read_slot_ok [OF s]
    let ?off = "field fh (position fh) (slot_width fh)"
    from read_slot [OF len] s have v: "v = Num ?off"
      and fh1: "fh1 = fh\<lparr>position := position fh + slot_width fh\<rparr>"
      by simp_all
    show "\<exists>k c. chain k fh (position fh) = Some c"
    proof (cases "?off = 0")
      case True
      with len have "chain (Suc 0) fh (position fh) = Some []" by (simp add: Let_def)
      then show ?thesis by blast
    next
      case False
      from 1(2) r s v False obtain d fh2
        where d: "TiffDirectory_init (seek fh1 ?off) (tell fh) = Inr (d, fh2)"
          and c: "rd fh2 (acc @ [d]) = Some r"
        by (auto simp: Let_def split: sum.splits)
      from TiffDirectory_init_ok [OF d] fh1
      have cw: "?off + count_width fh \<le> length (content fh)"
        and fh2: "fh2 = fh\<lparr>position := out_pointer_offset (directory_at fh (tell fh, ?off))\<rparr>"
        by simp_all
      from 1(1) [OF c] r obtain k c'
        where "chain k fh2 (position fh2) = Some c'" by blast
      with fh2 have "chain k fh (out_pointer_offset (directory_at fh (position fh, ?off))) = Some c'"
        by (simp add: tell_def)
      from chain_Suc_nonzero [OF len False cw this]
      show ?thesis by blast
    qed
  qed
qed

lemma loop_header:
  "TiffFile_header loop_file =
     Inr \<lparr>content = loop_file, position = 4, fmt_prefix = LittleEndian, bigtiff = False\<rparr>"
  by (simp add: TiffFile_header_eq header_endian_def header_field_def loop_file_def le_nat_def)

lemma loop_start:
  "read_directories \<lparr>content = loop_file, position = 4, fmt_prefix = LittleEndian,
          bigtiff = False\<rparr> acc =
        read_directories \<lparr>content = loop_file, position = 10, fmt_prefix = LittleEndian,
          bigtiff = False\<rparr>
          (acc @ [\<lparr>in_pointer_offset = 4, entries = Map.empty, out_pointer_offset = 10\<rparr>])"
  apply (subst read_directories.simps)
  apply (simp add: eval_simps loop_file_def seek_def)
  done

lemma loop_never:
  assumes "read_directories fh acc = Some r"
  shows "fh \<noteq> \<lparr>content = loop_file, position = 10, fmt_prefix = LittleEndian, bigtiff = False\<rparr>"
proof (rule read_directories.raw_induct
    [where P = "\<lambda>fh acc r. fh \<noteq> \<lparr>content = loop_file, position = 10,
        fmt_prefix = LittleEndian, bigtiff = False\<rparr>", OF _ assms],
    goal_cases)
  case (1 rd fh acc r)
  let ?fh = "\<lparr>content = loop_file, position = 10, fmt_prefix = LittleEndian, bigtiff = False\<rparr>"
  show ?case
  proof
    assume fh: "fh = ?fh"
    from 1(2) have "rd ?fh
        (acc @ [\<lparr>in_pointer_offset = 10, entries = Map.empty, out_pointer_offset = 10\<rparr>]) = Some r"
      unfolding fh by (simp add: eval_simps loop_file_def seek_def)
    from 1(1) [OF this] show False by simp
  qed
qed

lemma loop_init: "TiffFile_init loop_file = None"
proof -
  let ?fh = "\<lparr>content = loop_file, position = 10, fmt_prefix = LittleEndian, bigtiff = False\<rparr>"
  let ?acc = "[] @ [\<lparr>in_pointer_offset = 4, entries = Map.empty, out_pointer_offset = 10\<rparr>]"
  have "read_directories ?fh ?acc = None"
  proof (cases "read_directories ?fh ?acc")
    case (Some r)
    from loop_never [OF this] show ?thesis by simp
  qed simp
  then show ?thesis by (simp only: TiffFile_init_def loop_header loop_start sum.case)
qed

text \<open>
  Claim C10.  When the header is accepted and the chain of links from the header's slot
  reaches a 0 link after finitely many steps, the traversal of \<open>TiffFile.__init__\<close>
  returns, and the directories it yields are those at the offsets of the chain, in the
  order of the links.  The precondition is required: when the traversal returns its list,
  the chain reaches a 0 link; and on a file whose chain is a cycle it never returns.
\<close>

theorem traversal_terminates:
  "(TiffFile_header bs = Inr fh \<and> chain k fh (position fh) = Some c \<longrightarrow>
      (\<exists>q. TiffFile_init bs = Some (Inr (fh\<lparr>position := q\<rparr>, map (directory_at fh) c))))
   \<and> (TiffFile_header bs = Inr fh \<and> TiffFile_init bs = Some (Inr (fh', ds)) \<longrightarrow>
        (\<exists>k c. chain k fh (position fh) = Some c))
   \<and> TiffFile_init loop_file = None"
proof (intro conjI impI)
  assume "TiffFile_header bs = Inr fh \<and> chain k fh (position fh) = Some c"
  then show "\<exists>q. TiffFile_init bs = Some (Inr (fh\<lparr>position := q\<rparr>, map (directory_at fh) c))"
    using TiffFile_init_chain by blast
next
  assume a: "TiffFile_header bs = Inr fh \<and> TiffFile_init bs = Some (Inr (fh', ds))"
  then have "TiffFile_header bs = Inr fh" and "TiffFile_init bs = Some (Inr (fh', ds))"
    by simp_all
  then have "read_directories fh [] = Some (Inr (fh', ds))"
    by (simp add: TiffFile_init_def)
  from walk_chain [OF this] show "\<exists>k c. chain k fh (position fh) = Some c" by simp
next
  show "TiffFile_init loop_file = None" by (rule loop_init)
qed

lemma two_dir_header:
  "TiffFile_header two_dir_file =
     Inr \<lparr>content = two_dir_file, position = 4, fmt_prefix = LittleEndian, bigtiff = False\<rparr>"
  by (simp add: TiffFile_header_eq header_endian_def header_field_def two_dir_file_def le_nat_def)

lemma two_dir_chain:
  "chain 3 \<lparr>content = two_dir_file, position = 4, fmt_prefix = LittleEndian,
      bigtiff = False\<rparr> 4 = Some [(4, 8), (22, 26)]"
  by (simp add: chain_numeral chain_one two_dir_file_def layout_simps)

lemma two_dir_dirs:
  "map (\<lambda>d. (in_pointer_offset d, out_pointer_offset d, map_option value_offset (entries d 256),
        map_option value_offset (entries d 257)))
     (map (directory_at \<lparr>content = two_dir_file, position = 4, fmt_prefix = LittleEndian,
        bigtiff = False\<rparr>) [(4, 8), (22, 26)]) =
     [(4, 22, Some 5, None), (22, 40, None, Some 6)]"
  by (simp add: two_dir_file_def layout_simps)

theorem traversal_terminates_witness:
  "\<exists>fh q ds. TiffFile_init two_dir_file = Some (Inr (fh\<lparr>position := q\<rparr>, ds))
     \<and> map (\<lambda>d. (in_pointer_offset d, out_pointer_offset d,
              map_option value_offset (entries d 256),
              map_option value_offset (entries d 257))) ds =
         [(4, 22, Some 5, None), (22, 40, None, Some 6)]
     \<and> (\<exists>k c. chain k fh (position fh) = Some c)"
proof -
  let ?fh = "\<lparr>content = two_dir_file, position = 4, fmt_prefix = LittleEndian,
      bigtiff = False\<rparr>"
  let ?ds = "map (directory_at ?fh) [(4, 8), (22, 26)]"
  have c: "chain 3 ?fh (position ?fh) = Some [(4, 8), (22, 26)]"
    using two_dir_chain by simp
  note t = traversal_terminates [of two_dir_file ?fh 3 "[(4, 8), (22, 26)]"]
  from t [THEN conjunct1] two_dir_header c
  have "\<exists>q. TiffFile_init two_dir_file = Some (Inr (?fh\<lparr>position := q\<rparr>, ?ds))"
    by (elim impE) (intro conjI)
  then obtain q where i: "TiffFile_init two_dir_file = Some (Inr (?fh\<lparr>position := q\<rparr>, ?ds))"
    by (elim exE)
  from traversal_terminates [of two_dir_file ?fh _ _ "?fh\<lparr>position := q\<rparr>" ?ds,
      THEN conjunct2, THEN conjunct1] two_dir_header i
  have k: "\<exists>k c. chain k ?fh (position ?fh) = Some c"
    by (elim impE) (intro conjI)
  from i two_dir_dirs k
  have "TiffFile_init two_dir_file = Some (Inr (?fh\<lparr>position := q\<rparr>, ?ds))
     \<and> map (\<lambda>d. (in_pointer_offset d, out_pointer_offset d,
              map_option value_offset (entries d 256),
              map_option value_offset (entries d 257))) ?ds =
         [(4, 22, Some 5, None), (22, 40, None, Some 6)]
     \<and> (\<exists>k c. chain k ?fh (position ?fh) = Some c)"
    by (intro conjI)
  then show ?thesis by (intro exI)
qed

end
